theory Spec2Isabelle
  imports Complex_Main
begin

section \<open>Data model\<close>

text \<open>
  The raw transaction of the scraping library, with the fields the storage code reads.
  Amounts are JavaScript numbers; only their sign is ever inspected, so they are reals.
  \<open>description\<close> is \<open>None\<close> when the value is not a string (the source checks
  \<open>typeof txn.description === "string"\<close>). Strings are byte lists (UTF-8).
\<close>

datatype TransactionStatuses = Completed | Pending

record Transaction =
  date :: string
  processedDate :: string
  originalAmount :: real
  description :: "string option"
  status :: TransactionStatuses
  memo :: "string option"

text \<open>
  \<open>TransactionRow\<close>: the object literal \<open>{...tx, account, companyId, hash, uniqueId}\<close>
  of \<open>resultsToTransactions\<close>, a record extension of the raw transaction. The two optional
  fields are the ones \<open>InvoiceCreator\<close> assigns; they are absent on a fresh row.
\<close>

record TransactionRow = Transaction +
  account :: string
  companyId :: string
  hash :: string
  uniqueId :: string
  pdf_link :: "string option"
  doc_number :: "string option"

record TransactionsAccount =
  accountNumber :: string
  txns :: "Transaction list"

text \<open>\<open>accounts\<close> is optional in the source (\<open>result.accounts ?? []\<close>).\<close>

record ScraperScrapingResult =
  success :: bool
  accounts :: "TransactionsAccount list option"

text \<open>One element of \<open>results\<close>: \<open>{ result, companyId }\<close>.\<close>

record AccountScrapeResult =
  result :: ScraperScrapingResult
  result_companyId :: string

datatype error = Error string

text \<open>
  Modelled from the spec: \<open>transactionHash\<close> and \<open>transactionUniqueId\<close> of
  \<open>./utils.js\<close> are missing. Each maps a raw transaction, the institution and the account
  to a string or fails; the formula is implementation-defined, so both are parameters.
\<close>

record Deriver =
  transactionHash :: "Transaction \<Rightarrow> string \<Rightarrow> string \<Rightarrow> error + string"
  transactionUniqueId :: "Transaction \<Rightarrow> string \<Rightarrow> string \<Rightarrow> error + string"

text \<open>
  Modelled from the spec: the class \<open>Timer\<close> of \<open>utils/Timer.js\<close> is missing. A progress
  step is a named step with a start timestamp and an end timestamp, open until closed.
  Time is logical: the number of clock reads made so far by the task that owns the timer.
\<close>

record Timer =
  timer_name :: string
  started :: nat
  ended :: "nat option"

definition Timer_new :: "string \<Rightarrow> nat \<Rightarrow> Timer \<times> nat" where
  "Timer_new step clk = (\<lparr>timer_name = step, started = clk, ended = None\<rparr>, Suc clk)"

definition Timer_end :: "Timer \<Rightarrow> nat \<Rightarrow> Timer \<times> nat" where
  "Timer_end t clk = (t\<lparr>ended := Some clk\<rparr>, Suc clk)"

text \<open>
  Modelled from the spec: \<open>createSaveStats\<close> of \<open>saveStats.js\<close> is missing. The stats
  carry the backend name, the outcome counts, all zero at creation, and the highlighted
  subset \<open>Added\<close>.
\<close>

record SaveStats =
  stats_name :: string
  table :: string
  total :: nat
  added :: int
  existing :: nat
  otherSkipped :: nat
  highlighted_Added :: "TransactionRow list"

definition createSaveStats :: "string \<Rightarrow> string \<Rightarrow> TransactionRow list \<Rightarrow> SaveStats" where
  "createSaveStats nm tbl ts =
     \<lparr>stats_name = nm, table = tbl, total = length ts, added = 0, existing = 0,
      otherSkipped = 0, highlighted_Added = []\<rparr>"

subsection \<open>The notification channel, as a trace\<close>

text \<open>
  \<open>send\<close>, \<open>editMessage\<close> and \<open>sendError\<close> come from \<open>notifier.js\<close>, the message
  texts from \<open>messages.js\<close> and \<open>saveStats.js\<close>; none is in the sources. Calls are
  recorded as events and texts stay symbolic. The calls themselves always settle.
\<close>

datatype context_label =
    Label string
  | FailedToProcess string string Transaction

datatype message_text =
    Plain string
  | Saving string "Timer list"
  | StatsString SaveStats nat "Timer list"

datatype event =
    Send message_text
  | EditMessage "nat option" message_text
  | SendError error context_label
  | SaveTransactions string "TransactionRow list"

section \<open>The Normalizer: \<open>resultsToTransactions\<close>\<close>

text \<open>
  The object literal calls \<open>transactionHash\<close> first and \<open>transactionUniqueId\<close> second;
  the first throw leaves the literal.
\<close>

definition toRow :: "Deriver \<Rightarrow> string \<Rightarrow> string \<Rightarrow> Transaction \<Rightarrow> error + TransactionRow" where
  "toRow d cid acc tx =
     (case transactionHash d tx cid acc of
        Inl e \<Rightarrow> Inl e
      | Inr h \<Rightarrow>
          (case transactionUniqueId d tx cid acc of
             Inl e \<Rightarrow> Inl e
           | Inr u \<Rightarrow> Inr (Transaction.extend tx (TransactionRow.fields acc cid h u None None))))"

text \<open>
  The version with the \<open>try\<close>/\<open>catch\<close> around \<open>txns.push\<close>. The state is the array
  \<open>txns\<close> and the \<open>sendError\<close> calls made so far.
\<close>

type_synonym norm_state = "TransactionRow list \<times> event list"

fun txLoop :: "Deriver \<Rightarrow> string \<Rightarrow> string \<Rightarrow> Transaction list \<Rightarrow> norm_state \<Rightarrow> norm_state" where
  "txLoop d cid acc [] s = s"
| "txLoop d cid acc (tx # rest) (out, evs) =
     (case toRow d cid acc tx of
        Inr row \<Rightarrow> txLoop d cid acc rest (out @ [row], evs)
      | Inl e \<Rightarrow> txLoop d cid acc rest (out, evs @ [SendError e (FailedToProcess cid acc tx)]))"

fun accountLoop :: "Deriver \<Rightarrow> string \<Rightarrow> TransactionsAccount list \<Rightarrow> norm_state \<Rightarrow> norm_state" where
  "accountLoop d cid [] s = s"
| "accountLoop d cid (a # rest) s =
     accountLoop d cid rest (txLoop d cid (accountNumber a) (txns a) s)"

fun resultLoop :: "Deriver \<Rightarrow> AccountScrapeResult list \<Rightarrow> norm_state \<Rightarrow> norm_state" where
  "resultLoop d [] s = s"
| "resultLoop d (r # rest) s =
     (if success (result r)
      then resultLoop d rest
             (accountLoop d (result_companyId r)
                (case accounts (result r) of None \<Rightarrow> [] | Some as \<Rightarrow> as) s)
      else resultLoop d rest s)"

definition resultsToTransactions :: "Deriver \<Rightarrow> AccountScrapeResult list \<Rightarrow> norm_state" where
  "resultsToTransactions d results = resultLoop d results ([], [])"

text \<open>
  The version of \<open>src/bot/storage/index.ts\<close>: the same three loops with no \<open>try\<close>; a
  throw of either derivation leaves the function.
\<close>

fun txLoop_index ::
  "Deriver \<Rightarrow> string \<Rightarrow> string \<Rightarrow> Transaction list \<Rightarrow> TransactionRow list \<Rightarrow> error + TransactionRow list" where
  "txLoop_index d cid acc [] out = Inr out"
| "txLoop_index d cid acc (tx # rest) out =
     (case toRow d cid acc tx of
        Inr row \<Rightarrow> txLoop_index d cid acc rest (out @ [row])
      | Inl e \<Rightarrow> Inl e)"

fun accountLoop_index ::
  "Deriver \<Rightarrow> string \<Rightarrow> TransactionsAccount list \<Rightarrow> TransactionRow list \<Rightarrow> error + TransactionRow list" where
  "accountLoop_index d cid [] out = Inr out"
| "accountLoop_index d cid (a # rest) out =
     (case txLoop_index d cid (accountNumber a) (txns a) out of
        Inr out' \<Rightarrow> accountLoop_index d cid rest out'
      | Inl e \<Rightarrow> Inl e)"

fun resultLoop_index ::
  "Deriver \<Rightarrow> AccountScrapeResult list \<Rightarrow> TransactionRow list \<Rightarrow> error + TransactionRow list" where
  "resultLoop_index d [] out = Inr out"
| "resultLoop_index d (r # rest) out =
     (if success (result r)
      then (case accountLoop_index d (result_companyId r)
                   (case accounts (result r) of None \<Rightarrow> [] | Some as \<Rightarrow> as) out of
              Inr out' \<Rightarrow> resultLoop_index d rest out'
            | Inl e \<Rightarrow> Inl e)
      else resultLoop_index d rest out)"

definition resultsToTransactions_index ::
  "Deriver \<Rightarrow> AccountScrapeResult list \<Rightarrow> error + TransactionRow list" where
  "resultsToTransactions_index d results = resultLoop_index d results []"

subsection \<open>The canonical sequence in the words of the specification\<close>

text \<open>
  A raw transaction augmented with exactly the four fields \<open>account\<close>, \<open>companyId\<close>,
  \<open>hash\<close> and \<open>uniqueId\<close>: every raw field is kept and nothing else is set.
\<close>

definition augmented :: "Transaction \<Rightarrow> string \<Rightarrow> string \<Rightarrow> string \<Rightarrow> string \<Rightarrow> TransactionRow" where
  "augmented tx acc cid h u =
     \<lparr>date = date tx, processedDate = processedDate tx, originalAmount = originalAmount tx,
      description = description tx, status = status tx, memo = memo tx,
      account = acc, companyId = cid, hash = h, uniqueId = u,
      pdf_link = None, doc_number = None\<rparr>"

text \<open>
  For each successful result, for each account batch, for each raw transaction: the
  augmented transaction when both keys derive, nothing otherwise; and one report per
  transaction whose derivation fails, with the error thrown and the raw transaction.
\<close>

definition rowsOfTx :: "Deriver \<Rightarrow> string \<Rightarrow> string \<Rightarrow> Transaction \<Rightarrow> TransactionRow list" where
  "rowsOfTx d cid acc tx =
     (case transactionHash d tx cid acc of
        Inl e \<Rightarrow> []
      | Inr h \<Rightarrow>
          (case transactionUniqueId d tx cid acc of
             Inl e \<Rightarrow> []
           | Inr u \<Rightarrow> [augmented tx acc cid h u]))"

definition reportsOfTx :: "Deriver \<Rightarrow> string \<Rightarrow> string \<Rightarrow> Transaction \<Rightarrow> event list" where
  "reportsOfTx d cid acc tx =
     (case transactionHash d tx cid acc of
        Inl e \<Rightarrow> [SendError e (FailedToProcess cid acc tx)]
      | Inr h \<Rightarrow>
          (case transactionUniqueId d tx cid acc of
             Inl e \<Rightarrow> [SendError e (FailedToProcess cid acc tx)]
           | Inr u \<Rightarrow> []))"

definition batchesOf :: "AccountScrapeResult \<Rightarrow> TransactionsAccount list" where
  "batchesOf r =
     (if success (result r)
      then (case accounts (result r) of None \<Rightarrow> [] | Some as \<Rightarrow> as)
      else [])"

definition canonicalOf :: "Deriver \<Rightarrow> AccountScrapeResult list \<Rightarrow> TransactionRow list" where
  "canonicalOf d results =
     concat (map (\<lambda>r. concat (map (\<lambda>a. concat (map (rowsOfTx d (result_companyId r) (accountNumber a))
                                                     (txns a)))
                                (batchesOf r)))
                 results)"

definition reportsOf :: "Deriver \<Rightarrow> AccountScrapeResult list \<Rightarrow> event list" where
  "reportsOf d results =
     concat (map (\<lambda>r. concat (map (\<lambda>a. concat (map (reportsOfTx d (result_companyId r) (accountNumber a))
                                                     (txns a)))
                                (batchesOf r)))
                 results)"

section \<open>The invoice step: \<open>filterInsuranceVendorTransactions\<close> and \<open>InvoiceCreator\<close>\<close>

text \<open>
  The vendor names of the source, as UTF-8 bytes. The regular expression is the
  alternation of the names, none of which has a special character, so \<open>test\<close> is
  "some name occurs in the description".
\<close>

definition vendors :: "string list" where
  "vendors =
     [[CHR 0xD7, CHR 0x99, CHR 0xD7, CHR 0x9C, CHR 0xD7, CHR 0x99, CHR 0xD7, CHR 0x9F],
      [CHR 0xD7, CHR 0x90, CHR 0xD7, CHR 0x9C, CHR 0xD7, CHR 0x98, CHR 0xD7, CHR 0xA9, CHR 0xD7, CHR 0x95,
       CHR 0xD7, CHR 0x9C, CHR 0xD7, CHR 0xA8],
      [CHR 0xD7, CHR 0x9E, CHR 0xD7, CHR 0x95, CHR 0xD7, CHR 0xA8],
      [CHR 0xD7, CHR 0x90, CHR 0xD7, CHR 0xA0, CHR 0xD7, CHR 0x9C, CHR 0xD7, CHR 0x99, CHR 0xD7, CHR 0xA1,
       CHR 0xD7, CHR 0x98],
      [CHR 0xD7, CHR 0x9E, CHR 0xD7, CHR 0x92, CHR 0xD7, CHR 0x93, CHR 0xD7, CHR 0x9C],
      [CHR 0xD7, CHR 0x9B, CHR 0xD7, CHR 0x9C, CHR 0xD7, CHR 0x9C],
      [CHR 0xD7, CHR 0x94, CHR 0xD7, CHR 0xA8, CHR 0xD7, CHR 0x90, CHR 0xD7, CHR 0x9C],
      [CHR 0xD7, CHR 0xA4, CHR 0xD7, CHR 0xA0, CHR 0xD7, CHR 0x99, CHR 0xD7, CHR 0xA7, CHR 0xD7, CHR 0xA1],
      [CHR 0xD7, CHR 0x9E, CHR 0xD7, CHR 0xA0, CHR 0xD7, CHR 0x95, CHR 0xD7, CHR 0xA8, CHR 0xD7, CHR 0x94]]"

fun startsWith :: "string \<Rightarrow> string \<Rightarrow> bool" where
  "startsWith s [] = True"
| "startsWith [] (c # p) = False"
| "startsWith (x # s) (c # p) = (x = c \<and> startsWith s p)"

fun str_includes :: "string \<Rightarrow> string \<Rightarrow> bool" where
  "str_includes [] p = (p = [])"
| "str_includes (x # s) p = (startsWith (x # s) p \<or> str_includes s p)"

definition vendorRegex_test :: "string \<Rightarrow> bool" where
  "vendorRegex_test s = list_ex (str_includes s) vendors"

text \<open>
  Objects are shared: \<open>filter\<close> returns a new array of the same row objects, and
  \<open>InvoiceCreator\<close> assigns fields of those objects. The store is the list of the row
  objects in creation order; an array of rows is a list of addresses into it. The
  addresses of an array always come from \<open>[0..<length store]\<close>.
\<close>

type_synonym store = "TransactionRow list"

definition filterInsuranceVendorTransactions :: "store \<Rightarrow> nat list \<Rightarrow> nat list" where
  "filterInsuranceVendorTransactions h transactions =
     filter (\<lambda>a. case description (h ! a) of None \<Rightarrow> False | Some s \<Rightarrow> vendorRegex_test s)
       (filter (\<lambda>a. originalAmount (h ! a) > 0) transactions)"

text \<open>
  The answer of the invoice service to \<open>POST /api/createDoc\<close> for one row: the request
  fails, the response is not ok, or it is a JSON body with its two optional fields. The
  request always settles: \<open>fetch\<close> gives up on a server that stays silent, which is a
  failed request.
\<close>

datatype response =
    FetchFailed error
  | NotOk
  | Json "string option" "string option"

definition createInvoiceForTransaction ::
  "(TransactionRow \<Rightarrow> response) \<Rightarrow> TransactionRow \<Rightarrow> error + string option \<times> string option" where
  "createInvoiceForTransaction api txn =
     (case api txn of
        FetchFailed e \<Rightarrow> Inl e
      | NotOk \<Rightarrow>
          Inl (Error (''Failed to create invoice for txn ''
                      @ (if uniqueId txn \<noteq> [] then uniqueId txn else hash txn)))
      | Json p d \<Rightarrow> Inr (p, d))"

text \<open>JavaScript truthiness of an optional string: present and not empty.\<close>

definition truthy :: "string option \<Rightarrow> bool" where
  "truthy v = (case v of None \<Rightarrow> False | Some s \<Rightarrow> s \<noteq> [])"

text \<open>
  \<open>createInvoicesForTransactions\<close>: the loop assigns \<open>txn.pdf_link\<close> and
  \<open>txn.doc_number\<close> on the row object itself and swallows every error; it returns the
  array it was given, so the result is the updated store.
\<close>

fun createInvoicesForTransactions ::
  "(TransactionRow \<Rightarrow> response) \<Rightarrow> nat list \<Rightarrow> store \<Rightarrow> store" where
  "createInvoicesForTransactions api [] h = h"
| "createInvoicesForTransactions api (a # rest) h =
     (case createInvoiceForTransaction api (h ! a) of
        Inr (p, d) \<Rightarrow>
          (let h1 = (if truthy p then h[a := (h ! a)\<lparr>pdf_link := p\<rparr>] else h);
               h2 = (if truthy d then h1[a := (h1 ! a)\<lparr>doc_number := d\<rparr>] else h1)
           in createInvoicesForTransactions api rest h2)
      | Inl e \<Rightarrow> createInvoicesForTransactions api rest h)"

text \<open>
  The constructor of \<open>InvoiceCreator\<close>. Its argument is \<open>None\<close> when it is called with
  no argument, and otherwise tells whether \<open>config.storage.invoice\<close> is set. It reads
  \<open>config.storage.invoice\<close> first, which throws a TypeError on a missing \<open>config\<close>, and
  throws itself when the invoice configuration is missing.
\<close>

definition InvoiceCreator_new :: "bool option \<Rightarrow> error + unit" where
  "InvoiceCreator_new config =
     (case config of
        None \<Rightarrow> Inl (Error ''TypeError: Cannot read properties of undefined (reading storage)'')
      | Some invoiceConfig \<Rightarrow>
          if \<not> invoiceConfig
          then Inl (Error ''Invoice configuration not found in config.storage.invoice'')
          else Inr ())"

text \<open>
  In the words of the source's comment: a transaction of an insurance vendor, with a
  positive original amount and a description naming one of the vendors.
\<close>

definition isInsuranceVendorTransaction :: "TransactionRow \<Rightarrow> bool" where
  "isInsuranceVendorTransaction txn =
     (originalAmount txn > 0
      \<and> (case description txn of None \<Rightarrow> False | Some s \<Rightarrow> vendorRegex_test s))"

text \<open>
  What the invoice step does to one row, said without the store: the row with the links
  of the service's answer, each assigned only when the answer carries it, and the row
  itself when the request fails or the response is not ok.
\<close>

definition withLinks :: "string option \<Rightarrow> string option \<Rightarrow> TransactionRow \<Rightarrow> TransactionRow" where
  "withLinks p d txn =
     txn\<lparr>pdf_link := (if truthy p then p else pdf_link txn),
         doc_number := (if truthy d then d else doc_number txn)\<rparr>"

definition invoiced :: "(TransactionRow \<Rightarrow> response) \<Rightarrow> TransactionRow \<Rightarrow> TransactionRow" where
  "invoiced api txn = (case api txn of Json p d \<Rightarrow> withLinks p d txn | _ \<Rightarrow> txn)"

section \<open>The Orchestrator: \<open>saveResults\<close>\<close>

text \<open>
  A backend is its \<open>constructor.name\<close> and its \<open>saveTransactions\<close>: given the rows, what
  it does towards the orchestrator and the notifier before its promise settles, in order,
  and how the promise settles. It calls \<open>onProgress\<close> with a step name, and it may call
  the notifier itself: \<open>sendError\<close> with a label of its own, as \<open>GoogleSheetsStorage\<close>
  does when a load fails, or \<open>send\<close> with a text, as its deprecation message does.
\<close>

datatype outcome = Resolves SaveStats | Rejects error | Hangs

datatype backend_action = Progress string | Report error string | Notify string

record TransactionStorage =
  storage_name :: string
  saveTransactions :: "TransactionRow list \<Rightarrow> backend_action list \<times> outcome"

datatype settle = Fulfilled | Rejected error | Never

text \<open>The state of one task: its clock, its array \<open>steps\<close>, and the notifier calls it made.\<close>

record task_state =
  clock :: nat
  steps :: "Timer list"
  trace :: "event list"

text \<open>\<open>steps.at(-1)?.end()\<close>\<close>

definition end_last :: "task_state \<Rightarrow> task_state" where
  "end_last s =
     (if steps s = [] then s
      else (case Timer_end (last (steps s)) (clock s) of
              (t, c) \<Rightarrow> s\<lparr>clock := c, steps := butlast (steps s) @ [t]\<rparr>))"

text \<open>The callback handed to the backend; \<open>msg\<close> is \<open>message?.message_id\<close>.\<close>

definition onProgress :: "nat option \<Rightarrow> string \<Rightarrow> string \<Rightarrow> task_state \<Rightarrow> task_state" where
  "onProgress msg name step s =
     (let s1 = end_last s
      in (case Timer_new step (clock s1) of
            (t, c) \<Rightarrow>
              (let s2 = s1\<lparr>clock := c, steps := steps s1 @ [t]\<rparr>
               in s2\<lparr>trace := trace s2 @ [EditMessage msg (Saving name (steps s2))]\<rparr>)))"

text \<open>One action of the backend, as the task sees it.\<close>

definition backendAction :: "nat option \<Rightarrow> string \<Rightarrow> backend_action \<Rightarrow> task_state \<Rightarrow> task_state" where
  "backendAction msg name act s =
     (case act of
        Progress step \<Rightarrow> onProgress msg name step s
      | Report e label \<Rightarrow> s\<lparr>trace := trace s @ [SendError e (Label label)]\<rparr>
      | Notify t \<Rightarrow> s\<lparr>trace := trace s @ [Send (Plain t)]\<rparr>)"

text \<open>The step names among the actions of a backend, in order.\<close>

definition progressNames :: "backend_action list \<Rightarrow> string list" where
  "progressNames acts = concat (map (\<lambda>act. case act of Progress step \<Rightarrow> [step] | _ \<Rightarrow> []) acts)"

text \<open>
  The body of the \<open>try\<close>. \<open>send_result\<close> is the message id that \<open>send\<close> answers for a
  text, if any. The two \<open>performance.now()\<close> calls read the task's clock.
\<close>

definition tryBlock ::
  "(message_text \<Rightarrow> nat option) \<Rightarrow> TransactionStorage \<Rightarrow> TransactionRow list \<Rightarrow> settle \<times> task_state" where
  "tryBlock send_result storage allTransactions =
     (let name = storage_name storage;
          msg = send_result (Saving name []);
          s0 = \<lparr>clock = 0, steps = [], trace = [Send (Saving name [])]\<rparr>;
          start = clock s0;
          s1 = s0\<lparr>clock := Suc start, trace := trace s0 @ [SaveTransactions name allTransactions]\<rparr>
      in (case saveTransactions storage allTransactions of
            (acts, out) \<Rightarrow>
              (let s2 = fold (backendAction msg name) acts s1
               in (case out of
                     Rejects e \<Rightarrow> (Rejected e, s2)
                   | Hangs \<Rightarrow> (Never, s2)
                   | Resolves stats \<Rightarrow>
                       (let duration = clock s2 - start;
                            s3 = end_last (s2\<lparr>clock := Suc (clock s2)\<rparr>)
                        in (Fulfilled,
                            s3\<lparr>trace := trace s3
                                  @ [EditMessage msg (StatsString stats duration (steps s3))]\<rparr>))))))"

text \<open>The task of one backend: the \<open>try\<close> with its \<open>catch\<close>.\<close>

definition saveTask ::
  "(message_text \<Rightarrow> nat option) \<Rightarrow> TransactionStorage \<Rightarrow> TransactionRow list \<Rightarrow> settle \<times> task_state" where
  "saveTask send_result storage allTransactions =
     (case tryBlock send_result storage allTransactions of
        (Rejected e, s) \<Rightarrow>
          (Fulfilled,
           s\<lparr>trace := trace s
                @ [SendError e (Label (''saveTransactions::'' @ storage_name storage))]\<rparr>)
      | (r, s) \<Rightarrow> (r, s))"

text \<open>
  \<open>parallel\<close> of the \<open>async\<close> library, on tasks that have run: it rejects with the error
  of a rejected task, stays pending while some task never settles, and fulfils otherwise.
  The tasks share no state, so each is run on its own and keeps its own trace.
\<close>

definition parallel :: "(settle \<times> task_state) list \<Rightarrow> settle" where
  "parallel ts =
     (case filter (\<lambda>r. r \<noteq> Fulfilled \<and> r \<noteq> Never) (map fst ts) of
        r # _ \<Rightarrow> r
      | [] \<Rightarrow> (if Never \<in> set (map fst ts) then Never else Fulfilled))"

record Env =
  deriver :: Deriver
  send_reply :: "message_text \<Rightarrow> nat option"
  createDoc :: "TransactionRow \<Rightarrow> response"
  invoice_configured :: bool

text \<open>
  One run: how the promise of \<open>saveResults\<close> settles, the notifier calls of the main
  flow, and the tasks of the fan-out in the order of \<open>storages\<close>.
\<close>

record run =
  settled :: settle
  main_trace :: "event list"
  tasks :: "(settle \<times> task_state) list"

text \<open>
  The block "Create invoices for filtered insurance vendor transactions" of \<open>saveResults\<close>:
  the store after it, or the error of the constructor, which is called outside the
  \<open>try\<close>. The \<open>catch\<close> around \<open>createInvoicesForTransactions\<close> is never entered, since
  that function swallows every error itself. The invoice service is taken to answer.
\<close>

definition invoiceStep :: "Env \<Rightarrow> store \<Rightarrow> error + store" where
  "invoiceStep env allTransactions =
     (if invoice_configured env
      then (let txns = filterInsuranceVendorTransactions allTransactions [0..<length allTransactions]
            in if length txns > 0
               then (case InvoiceCreator_new (Some (invoice_configured env)) of
                       Inl e \<Rightarrow> Inl e
                     | Inr invoiceCreator \<Rightarrow>
                         Inr (createInvoicesForTransactions (createDoc env) txns allTransactions))
               else Inr allTransactions)
      else Inr allTransactions)"

text \<open>
  The argument of \<open>parallel\<close>: one task per element of \<open>storages\<close>, each given the same
  array.
\<close>

definition fanOut ::
  "(message_text \<Rightarrow> nat option) \<Rightarrow> TransactionStorage list \<Rightarrow> TransactionRow list
     \<Rightarrow> (settle \<times> task_state) list" where
  "fanOut send_result storages transactions =
     map (\<lambda>storage. saveTask send_result storage transactions) storages"

text \<open>\<open>saveResults\<close> with the invoice step behind \<open>config.storage.invoice\<close>.\<close>

definition saveResults :: "Env \<Rightarrow> TransactionStorage list \<Rightarrow> AccountScrapeResult list \<Rightarrow> run" where
  "saveResults env storages results =
     (if length storages = 0
      then \<lparr>settled = Fulfilled,
            main_trace = [Send (Plain ''No storages found, skipping save'')], tasks = []\<rparr>
      else (case resultsToTransactions (deriver env) results of
              (allTransactions, reports) \<Rightarrow>
                if length allTransactions = 0
                then \<lparr>settled = Fulfilled,
                      main_trace = reports @ [Send (Plain ''No transactions found, skipping save'')],
                      tasks = []\<rparr>
                else (case invoiceStep env allTransactions of
                        Inl e \<Rightarrow> \<lparr>settled = Rejected e, main_trace = reports, tasks = []\<rparr>
                      | Inr h \<Rightarrow>
                          (let ts = fanOut (send_reply env) storages
                                      (map ((!) h) [0..<length allTransactions])
                           in \<lparr>settled = parallel ts, main_trace = reports, tasks = ts\<rparr>))))"

text \<open>
  \<open>saveResults\<close> of \<open>src/bot/storage/index.ts\<close>: the rows are filtered first and the run
  stops when none is left. Then \<open>new InvoiceCreator()\<close> is called with no argument,
  outside the \<open>try\<close>, so what it throws leaves \<open>saveResults\<close>; after it the backends
  would receive \<open>invoiceResults\<close>, the filtered array.
\<close>

definition saveResults_index :: "Env \<Rightarrow> TransactionStorage list \<Rightarrow> AccountScrapeResult list \<Rightarrow> run" where
  "saveResults_index env storages results =
     (if length storages = 0
      then \<lparr>settled = Fulfilled,
            main_trace = [Send (Plain ''No storages found, skipping save'')], tasks = []\<rparr>
      else (case resultsToTransactions_index (deriver env) results of
              Inl e \<Rightarrow> \<lparr>settled = Rejected e, main_trace = [], tasks = []\<rparr>
            | Inr allTransactions \<Rightarrow>
                (let txns = filterInsuranceVendorTransactions allTransactions [0..<length allTransactions]
                 in if length txns = 0
                    then \<lparr>settled = Fulfilled,
                          main_trace = [Send (Plain ''No positive transactions found, skipping save'')],
                          tasks = []\<rparr>
                    else (case InvoiceCreator_new None of
                            Inl e \<Rightarrow> \<lparr>settled = Rejected e, main_trace = [], tasks = []\<rparr>
                          | Inr invoiceCreator \<Rightarrow>
                              (let h = createInvoicesForTransactions (createDoc env) txns allTransactions;
                                   invoiceResults = txns;
                                   ts = fanOut (send_reply env) storages (map ((!) h) invoiceResults)
                               in \<lparr>settled = parallel ts, main_trace = [], tasks = ts\<rparr>)))))"

text \<open>The calls of \<open>saveTransactions\<close> that a task made: backend name and rows received.\<close>

definition saveCalls :: "settle \<times> task_state \<Rightarrow> (string \<times> TransactionRow list) list" where
  "saveCalls t = concat (map (\<lambda>ev. case ev of SaveTransactions n rows \<Rightarrow> [(n, rows)] | _ \<Rightarrow> [])
                              (trace (snd t)))"

text \<open>
  A step timeline in which every step but the last is closed, not before its own start
  and before the start of its successor.
\<close>

fun closed_in_order :: "Timer list \<Rightarrow> bool" where
  "closed_in_order [] = True"
| "closed_in_order [t] = True"
| "closed_in_order (t # u # rest) =
     ((case ended t of None \<Rightarrow> False | Some e \<Rightarrow> started t \<le> e \<and> e < started u)
      \<and> closed_in_order (u # rest))"

text \<open>What a trace holds of each kind of notifier call.\<close>

definition errorReports :: "event list \<Rightarrow> (error \<times> context_label) list" where
  "errorReports evs = concat (map (\<lambda>ev. case ev of SendError e c \<Rightarrow> [(e, c)] | _ \<Rightarrow> []) evs)"


text \<open>
  The state of a task when the backend is called, and the property of a state that its
  last step, if any, is open and was started before the current clock value.
\<close>

definition start_state :: "string \<Rightarrow> TransactionRow list \<Rightarrow> task_state" where
  "start_state n rows =
     \<lparr>clock = Suc 0, steps = [], trace = [Send (Saving n []), SaveTransactions n rows]\<rparr>"

definition open_last :: "task_state \<Rightarrow> bool" where
  "open_last s =
     (steps s \<noteq> [] \<longrightarrow> ended (last (steps s)) = None \<and> started (last (steps s)) < clock s)"

text \<open>Two rows that agree on every field except, possibly, \<open>pdf_link\<close> and \<open>doc_number\<close>.\<close>

definition same_but_links :: "TransactionRow \<Rightarrow> TransactionRow \<Rightarrow> bool" where
  "same_but_links r c = (r\<lparr>pdf_link := pdf_link c, doc_number := doc_number c\<rparr> = c)"

section \<open>\<open>GoogleSheetsStorage.saveTransactions\<close>\<close>

text \<open>
  The callback of \<open>txns.filter\<close>. \<open>ht\<close> is \<open>config.options.scraping.transactionHashType\<close>
  and \<open>existingHashes\<close> the set that \<open>loadHashes\<close> returned.
\<close>

definition isNewTxn :: "string \<Rightarrow> string set \<Rightarrow> TransactionRow \<Rightarrow> SaveStats \<Rightarrow> bool \<times> SaveStats" where
  "isNewTxn ht existingHashes tx stats =
     (if ht = ''moneyman'' \<and> uniqueId tx \<in> existingHashes
      then (False, stats\<lparr>existing := existing stats + 1\<rparr>)
      else if hash tx \<in> existingHashes
      then (False, if uniqueId tx \<notin> existingHashes then stats\<lparr>existing := existing stats + 1\<rparr> else stats)
      else (status tx \<noteq> Pending, stats))"

fun filterNewTxns ::
  "string \<Rightarrow> string set \<Rightarrow> TransactionRow list \<Rightarrow> SaveStats \<Rightarrow> TransactionRow list \<times> SaveStats" where
  "filterNewTxns ht existingHashes [] stats = ([], stats)"
| "filterNewTxns ht existingHashes (tx # rest) stats =
     (case isNewTxn ht existingHashes tx stats of
        (keep, stats1) \<Rightarrow>
          (case filterNewTxns ht existingHashes rest stats1 of
             (newTxns, stats2) \<Rightarrow> (if keep then tx # newTxns else newTxns, stats2)))"

text \<open>
  How \<open>sheet.addRows\<close> settles; when it rejects, what the second \<open>loadHashes\<close> gives.
\<close>

datatype addRowsResult =
    AddFulfilled
  | AddRejected error "error + string set"

text \<open>
  The part of \<open>saveTransactions\<close> from the creation of the stats on (\<open>txs\<close> is
  the argument \<open>txns\<close>): the rows handed to
  \<open>sheet.addRows\<close> (one per element of \<open>newTxns\<close>; none when \<open>rows.length\<close> is 0) and the
  stats returned.
\<close>

definition GoogleSheetsStorage_saveTransactions ::
  "string \<Rightarrow> string \<Rightarrow> string set \<Rightarrow> (TransactionRow list \<Rightarrow> addRowsResult) \<Rightarrow> TransactionRow list
     \<Rightarrow> TransactionRow list \<times> SaveStats" where
  "GoogleSheetsStorage_saveTransactions ht worksheetName existingHashes addRows txs =
     (case filterNewTxns ht existingHashes txs (createSaveStats ''Google Sheets'' worksheetName txs) of
        (newTxns, stats) \<Rightarrow>
          if length newTxns > 0
          then (let stats1 = stats\<lparr>highlighted_Added := highlighted_Added stats @ newTxns,
                                   added := int (length newTxns)\<rparr>
                in (case addRows newTxns of
                      AddFulfilled \<Rightarrow> (newTxns, stats1)
                    | AddRejected e reload \<Rightarrow>
                        (case reload of
                           Inr hashes \<Rightarrow>
                             (let notSaved = filter (\<lambda>t. hash t \<notin> hashes \<and> uniqueId t \<notin> hashes) newTxns
                              in (newTxns,
                                  stats1\<lparr>added := added stats1 - int (length notSaved),
                                         otherSkipped := length notSaved\<rparr>))
                         | Inl e' \<Rightarrow> (newTxns, stats1))))
          else ([], stats))"

section \<open>Concrete inputs\<close>

text \<open>
  Modelled from the spec: the two derivations of \<open>./utils.js\<close> are missing. This stand-in
  is used at concrete inputs only: both keys are built from the transaction, the
  institution and the account, and both fail on a transaction without a date.
\<close>

definition sampleDeriver :: Deriver where
  "sampleDeriver =
     \<lparr>transactionHash =
        (\<lambda>tx cid acc. if date tx = [] then Inl (Error ''Invalid time value'')
                       else Inr (date tx @ ''_'' @ cid @ ''_'' @ acc)),
      transactionUniqueId =
        (\<lambda>tx cid acc. if date tx = [] then Inl (Error ''Invalid time value'')
                       else Inr (date tx @ ''_'' @ cid @ ''_'' @ acc @ ''_''
                                 @ (case description tx of None \<Rightarrow> [] | Some s \<Rightarrow> s)))\<rparr>"

text \<open>A commission of an insurance vendor (the third name of \<open>vendors\<close>), a purchase, and a
  transaction without a date.\<close>

definition txCommission :: Transaction where
  "txCommission =
     \<lparr>date = ''2024-05-01'', processedDate = ''2024-05-02'', originalAmount = 120,
      description = Some ([CHR 0xD7, CHR 0x9E, CHR 0xD7, CHR 0x95, CHR 0xD7, CHR 0xA8] @ '' fee''),
      status = Completed, memo = None\<rparr>"

definition txPurchase :: Transaction where
  "txPurchase =
     \<lparr>date = ''2024-05-03'', processedDate = ''2024-05-04'', originalAmount = - 50,
      description = Some ''groceries'', status = Completed, memo = None\<rparr>"

definition txNoDate :: Transaction where
  "txNoDate =
     \<lparr>date = [], processedDate = [], originalAmount = 7,
      description = Some ''broken'', status = Completed, memo = None\<rparr>"

definition rowCommission :: TransactionRow where
  "rowCommission =
     \<lparr>date = ''2024-05-01'', processedDate = ''2024-05-02'', originalAmount = 120,
      description = Some ([CHR 0xD7, CHR 0x9E, CHR 0xD7, CHR 0x95, CHR 0xD7, CHR 0xA8] @ '' fee''),
      status = Completed, memo = None,
      account = ''1234'', companyId = ''hapoalim'',
      hash = ''2024-05-01_hapoalim_1234'',
      uniqueId = ''2024-05-01_hapoalim_1234_''
                 @ [CHR 0xD7, CHR 0x9E, CHR 0xD7, CHR 0x95, CHR 0xD7, CHR 0xA8] @ '' fee'',
      pdf_link = None, doc_number = None\<rparr>"

definition rowPurchase :: TransactionRow where
  "rowPurchase =
     \<lparr>date = ''2024-05-03'', processedDate = ''2024-05-04'', originalAmount = - 50,
      description = Some ''groceries'', status = Completed, memo = None,
      account = ''1234'', companyId = ''hapoalim'',
      hash = ''2024-05-03_hapoalim_1234'',
      uniqueId = ''2024-05-03_hapoalim_1234_groceries'',
      pdf_link = None, doc_number = None\<rparr>"

definition okResult :: "Transaction list \<Rightarrow> AccountScrapeResult" where
  "okResult ts =
     \<lparr>result = \<lparr>success = True, accounts = Some [\<lparr>accountNumber = ''1234'', txns = ts\<rparr>]\<rparr>,
      result_companyId = ''hapoalim''\<rparr>"

definition failedResult :: AccountScrapeResult where
  "failedResult =
     \<lparr>result = \<lparr>success = False, accounts = Some [\<lparr>accountNumber = ''9'', txns = [txPurchase]\<rparr>]\<rparr>,
      result_companyId = ''max''\<rparr>"

text \<open>Two backends, one whose save rejects after one step and one whose save succeeds
  after two, and two environments: an invoice service that answers with a document, and one
  that is down.\<close>

definition storageA :: TransactionStorage where
  "storageA =
     \<lparr>storage_name = ''YNABStorage'',
      saveTransactions = (\<lambda>rows. ([Progress ''fetch''], Rejects (Error ''connection refused'')))\<rparr>"

definition statsB :: "TransactionRow list \<Rightarrow> SaveStats" where
  "statsB rows = (createSaveStats ''LocalJsonStorage'' [] rows)\<lparr>added := int (length rows)\<rparr>"

definition storageB :: TransactionStorage where
  "storageB =
     \<lparr>storage_name = ''LocalJsonStorage'',
      saveTransactions = (\<lambda>rows. ([Progress ''fetch'', Progress ''write''], Resolves (statsB rows)))\<rparr>"

text \<open>A backend whose save never settles.\<close>

definition storageH :: TransactionStorage where
  "storageH =
     \<lparr>storage_name = ''SqlStorage'',
      saveTransactions = (\<lambda>rows. ([Progress ''connect''], Hangs))\<rparr>"

text \<open>A backend that, like \<open>GoogleSheetsStorage\<close> on a header row that does not load,
  reports the failure itself, opens one more step and rejects.\<close>

definition storageG :: TransactionStorage where
  "storageG =
     \<lparr>storage_name = ''GoogleSheetsStorage'',
      saveTransactions =
        (\<lambda>rows. ([Progress ''Loading header row'',
                   Report (Error ''quota exceeded'') ''GoogleSheetsStorage::loadHeaderRow'',
                   Progress ''Loading header row failed''],
                  Rejects (Error ''Failed to load header row'')))\<rparr>"

definition sampleEnv :: Env where
  "sampleEnv =
     \<lparr>deriver = sampleDeriver, send_reply = (\<lambda>t. Some 1),
      createDoc = (\<lambda>txn. Json (Some ''https://docs.example/1.pdf'') (Some ''17'')),
      invoice_configured = True\<rparr>"

definition sampleEnvDown :: Env where
  "sampleEnvDown =
     \<lparr>deriver = sampleDeriver, send_reply = (\<lambda>t. Some 1),
      createDoc = (\<lambda>txn. NotOk), invoice_configured = True\<rparr>"

section \<open>Normalizer: proofs\<close>

lemma toRow_eq:
  "toRow d cid acc tx =
     (case transactionHash d tx cid acc of
        Inl e \<Rightarrow> Inl e
      | Inr h \<Rightarrow>
          (case transactionUniqueId d tx cid acc of
             Inl e \<Rightarrow> Inl e
           | Inr u \<Rightarrow> Inr (augmented tx acc cid h u)))"
  by (simp add: toRow_def augmented_def Transaction.defs TransactionRow.defs split: sum.splits)

lemma rowsOfTx_toRow:
  "rowsOfTx d cid acc tx = (case toRow d cid acc tx of Inr row \<Rightarrow> [row] | Inl e \<Rightarrow> [])"
  by (simp add: toRow_eq rowsOfTx_def split: sum.splits)

lemma reportsOfTx_toRow:
  "reportsOfTx d cid acc tx =
     (case toRow d cid acc tx of
        Inr row \<Rightarrow> []
      | Inl e \<Rightarrow> [SendError e (FailedToProcess cid acc tx)])"
  by (simp add: toRow_eq reportsOfTx_def split: sum.splits)

lemma txLoop_eq:
  "txLoop d cid acc ts (out, evs) =
     (out @ concat (map (rowsOfTx d cid acc) ts), evs @ concat (map (reportsOfTx d cid acc) ts))"
  by (induction ts arbitrary: out evs)
     (auto simp: rowsOfTx_toRow reportsOfTx_toRow split: sum.splits)

lemma accountLoop_eq:
  "accountLoop d cid as (out, evs) =
     (out @ concat (map (\<lambda>a. concat (map (rowsOfTx d cid (accountNumber a)) (txns a))) as),
      evs @ concat (map (\<lambda>a. concat (map (reportsOfTx d cid (accountNumber a)) (txns a))) as))"
  by (induction as arbitrary: out evs) (auto simp: txLoop_eq)

lemma resultLoop_eq:
  "resultLoop d rs (out, evs) = (out @ canonicalOf d rs, evs @ reportsOf d rs)"
  by (induction rs arbitrary: out evs)
     (auto simp: accountLoop_eq canonicalOf_def reportsOf_def batchesOf_def)

lemma toRow_fields:
  assumes "toRow d cid acc tx = Inr row"
  shows "Transaction.truncate row = tx \<and> account row = acc \<and> companyId row = cid
         \<and> transactionHash d tx cid acc = Inr (hash row)
         \<and> transactionUniqueId d tx cid acc = Inr (uniqueId row)
         \<and> pdf_link row = None \<and> doc_number row = None"
  using assms
  by (auto simp: toRow_def Transaction.defs TransactionRow.defs split: sum.splits)

lemma resultsToTransactions_eq:
  "resultsToTransactions d results = (canonicalOf d results, reportsOf d results)"
  by (simp add: resultsToTransactions_def resultLoop_eq)

lemma failed_results_ignored:
  "canonicalOf d (filter (\<lambda>r. success (result r)) results) = canonicalOf d results
   \<and> reportsOf d (filter (\<lambda>r. success (result r)) results) = reportsOf d results"
  by (induction results) (auto simp: canonicalOf_def reportsOf_def batchesOf_def)

lemma toRow_commission: "toRow sampleDeriver ''hapoalim'' ''1234'' txCommission = Inr rowCommission"
  by (simp add: toRow_def sampleDeriver_def txCommission_def rowCommission_def
        Transaction.defs TransactionRow.defs)

lemma toRow_purchase: "toRow sampleDeriver ''hapoalim'' ''1234'' txPurchase = Inr rowPurchase"
  by (simp add: toRow_def sampleDeriver_def txPurchase_def rowPurchase_def
        Transaction.defs TransactionRow.defs)

lemma toRow_noDate:
  "toRow sampleDeriver ''hapoalim'' ''1234'' txNoDate = Inl (Error ''Invalid time value'')"
  by (simp add: toRow_def sampleDeriver_def txNoDate_def)

text \<open>
  The version with the \<open>try\<close>/\<open>catch\<close> skips a transaction whose derivation throws: the
  rows are those of the batch without it, and its report sits between the reports of the
  transactions before and after it.
\<close>

lemma txLoop_skips_malformed:
  assumes "toRow d cid acc tx = Inl e"
  shows "txLoop d cid acc (before @ tx # after) (out, evs) =
           (out @ concat (map (rowsOfTx d cid acc) before) @ concat (map (rowsOfTx d cid acc) after),
            evs @ concat (map (reportsOfTx d cid acc) before)
                @ [SendError e (FailedToProcess cid acc tx)]
                @ concat (map (reportsOfTx d cid acc) after))"
  using assms by (simp add: txLoop_eq rowsOfTx_toRow reportsOfTx_toRow)

text \<open>
  The keys of a canonical row are the two derivations applied to the row's own raw
  transaction, institution and account: the Normalizer passes them nothing else.
\<close>

lemma canonical_row_origin:
  assumes "row \<in> set (canonicalOf d results)"
  shows "\<exists>cid acc tx. toRow d cid acc tx = Inr row"
proof -
  have "\<exists>cid acc tx. row \<in> set (rowsOfTx d cid acc tx)"
    using assms by (auto simp: canonicalOf_def)
  then obtain cid acc tx where m: "row \<in> set (rowsOfTx d cid acc tx)"
    by blast
  then have "toRow d cid acc tx = Inr row"
    by (cases "toRow d cid acc tx") (simp_all add: rowsOfTx_toRow)
  then show ?thesis by blast
qed

lemma canonical_row_keys:
  assumes "row \<in> set (fst (resultsToTransactions d results))"
  shows "transactionHash d (Transaction.truncate row) (companyId row) (account row) = Inr (hash row)
         \<and> transactionUniqueId d (Transaction.truncate row) (companyId row) (account row)
             = Inr (uniqueId row)"
proof -
  from assms have "row \<in> set (canonicalOf d results)"
    by (simp add: resultsToTransactions_eq)
  then obtain cid acc tx where t: "toRow d cid acc tx = Inr row"
    using canonical_row_origin by blast
  from toRow_fields[OF t] show ?thesis by simp
qed

section \<open>Claims about the Normalizer\<close>

text \<open>
  C3, as stated: for every input the canonical output is the concatenation of all the
  transactions of the successful results' batches, each augmented. A transaction whose
  derivation throws is left out: of the three transactions of this batch two rows come
  out.
\<close>

theorem normalizer_leaves_out_underivable_transactions:
  "batchesOf (okResult [txCommission, txNoDate, txPurchase])
     = [\<lparr>accountNumber = ''1234'', txns = [txCommission, txNoDate, txPurchase]\<rparr>]
   \<and> fst (resultsToTransactions sampleDeriver [okResult [txCommission, txNoDate, txPurchase]])
       = [rowCommission, rowPurchase]
   \<and> length (fst (resultsToTransactions sampleDeriver [okResult [txCommission, txNoDate, txPurchase]]))
       \<noteq> length [txCommission, txNoDate, txPurchase]"
  by (simp add: resultsToTransactions_def okResult_def batchesOf_def
        toRow_commission toRow_purchase toRow_noDate)

text \<open>
  C3, amended. For every input sequence of raw account results, the canonical output of
  \<open>resultsToTransactions\<close> is, in input order, the concatenation over the successful
  results of the transactions of their account batches for which both keys derive, each
  augmented with exactly the fields \<open>account\<close> (the batch's account number),
  \<open>companyId\<close> (the result's institution), \<open>hash\<close> and \<open>uniqueId\<close>; a transaction for
  which a derivation throws is left out; a result whose \<open>success\<close> is false contributes
  no transaction and no error report, so that leaving such results out changes neither
  output.
\<close>

theorem normalizer_output_is_ordered_concatenation:
  "resultsToTransactions d results = (canonicalOf d results, reportsOf d results)
   \<and> resultsToTransactions d (filter (\<lambda>r. success (result r)) results)
       = resultsToTransactions d results
   \<and> (\<not> success (result r) \<longrightarrow>
        resultsToTransactions d (before @ r # after) = resultsToTransactions d (before @ after))
   \<and> (transactionHash d tx cid acc = Inr h \<and> transactionUniqueId d tx cid acc = Inr u \<longrightarrow>
        toRow d cid acc tx = Inr (augmented tx acc cid h u)
        \<and> rowsOfTx d cid acc tx = [augmented tx acc cid h u]
        \<and> reportsOfTx d cid acc tx = [])
   \<and> (transactionHash d tx cid acc = Inl e \<or> transactionUniqueId d tx cid acc = Inl e \<longrightarrow>
        rowsOfTx d cid acc tx = [] \<and> (\<exists>e'. toRow d cid acc tx = Inl e'))
   \<and> Transaction.truncate (augmented tx acc cid h u) = tx
   \<and> account (augmented tx acc cid h u) = acc \<and> companyId (augmented tx acc cid h u) = cid
   \<and> hash (augmented tx acc cid h u) = h \<and> uniqueId (augmented tx acc cid h u) = u
   \<and> pdf_link (augmented tx acc cid h u) = None \<and> doc_number (augmented tx acc cid h u) = None"
proof -
  have c4b: "transactionHash d tx cid acc = Inl e \<or> transactionUniqueId d tx cid acc = Inl e \<longrightarrow>
        rowsOfTx d cid acc tx = [] \<and> (\<exists>e'. toRow d cid acc tx = Inl e')"
    by (auto simp: toRow_eq rowsOfTx_def split: sum.splits)
  have c1: "resultsToTransactions d results = (canonicalOf d results, reportsOf d results)"
    by (rule resultsToTransactions_eq)
  have c2: "resultsToTransactions d (filter (\<lambda>r. success (result r)) results)
                   = resultsToTransactions d results"
    by (simp add: resultsToTransactions_eq failed_results_ignored)
  have c3: "\<not> success (result r) \<longrightarrow>
        resultsToTransactions d (before @ r # after) = resultsToTransactions d (before @ after)"
    by (simp add: resultsToTransactions_eq canonicalOf_def reportsOf_def batchesOf_def)
  have c4: "transactionHash d tx cid acc = Inr h \<and> transactionUniqueId d tx cid acc = Inr u \<longrightarrow>
        toRow d cid acc tx = Inr (augmented tx acc cid h u)
        \<and> rowsOfTx d cid acc tx = [augmented tx acc cid h u]
        \<and> reportsOfTx d cid acc tx = []"
    by (simp add: toRow_eq rowsOfTx_def reportsOfTx_def)
  have c5: "Transaction.truncate (augmented tx acc cid h u) = tx"
    by (simp add: augmented_def Transaction.defs)
  show ?thesis
    by (intro conjI c1 c2 c3 c4 c4b c5) (simp_all add: augmented_def)
qed

theorem normalizer_output_is_ordered_concatenation_witness:
  "\<not> success (result failedResult)
   \<and> transactionHash sampleDeriver txCommission ''hapoalim'' ''1234'' = Inr ''2024-05-01_hapoalim_1234''
   \<and> transactionUniqueId sampleDeriver txCommission ''hapoalim'' ''1234'' = Inr (uniqueId rowCommission)
   \<and> toRow sampleDeriver ''hapoalim'' ''1234'' txCommission
       = Inr (augmented txCommission ''1234'' ''hapoalim'' ''2024-05-01_hapoalim_1234''
                (uniqueId rowCommission))
   \<and> resultsToTransactions sampleDeriver ([] @ failedResult # [okResult [txCommission, txPurchase]])
       = resultsToTransactions sampleDeriver ([] @ [okResult [txCommission, txPurchase]])
   \<and> resultsToTransactions sampleDeriver [failedResult, okResult [txCommission, txNoDate, txPurchase]]
       = (canonicalOf sampleDeriver [failedResult, okResult [txCommission, txNoDate, txPurchase]],
          reportsOf sampleDeriver [failedResult, okResult [txCommission, txNoDate, txPurchase]])
   \<and> canonicalOf sampleDeriver [failedResult, okResult [txCommission, txNoDate, txPurchase]]
       = [rowCommission, rowPurchase]
   \<and> transactionHash sampleDeriver txNoDate ''hapoalim'' ''1234'' = Inl (Error ''Invalid time value'')
   \<and> rowsOfTx sampleDeriver ''hapoalim'' ''1234'' txNoDate = []"
proof -
  have f: "\<not> success (result failedResult)"
    by (simp add: failedResult_def)
  have k1: "transactionHash sampleDeriver txCommission ''hapoalim'' ''1234''
              = Inr ''2024-05-01_hapoalim_1234''"
    by (simp add: sampleDeriver_def txCommission_def)
  have k2: "transactionUniqueId sampleDeriver txCommission ''hapoalim'' ''1234''
              = Inr (uniqueId rowCommission)"
    by (simp add: sampleDeriver_def txCommission_def rowCommission_def)
  note t = normalizer_output_is_ordered_concatenation
            [where d = sampleDeriver
               and results = "[failedResult, okResult [txCommission, txNoDate, txPurchase]]"
               and r = failedResult and before = "[]" and after = "[okResult [txCommission, txPurchase]]"
               and tx = txCommission and cid = "''hapoalim''" and acc = "''1234''"
               and h = "''2024-05-01_hapoalim_1234''" and u = "uniqueId rowCommission"
               and e = "Error ''x''"]
  have p1: "resultsToTransactions sampleDeriver
              [failedResult, okResult [txCommission, txNoDate, txPurchase]]
       = (canonicalOf sampleDeriver [failedResult, okResult [txCommission, txNoDate, txPurchase]],
          reportsOf sampleDeriver [failedResult, okResult [txCommission, txNoDate, txPurchase]])"
    using t by (rule conjunct1)
  have i3: "\<not> success (result failedResult) \<longrightarrow>
        resultsToTransactions sampleDeriver ([] @ failedResult # [okResult [txCommission, txPurchase]])
          = resultsToTransactions sampleDeriver ([] @ [okResult [txCommission, txPurchase]])"
    using t by (elim conjE) assumption
  have p2: "resultsToTransactions sampleDeriver ([] @ failedResult # [okResult [txCommission, txPurchase]])
              = resultsToTransactions sampleDeriver ([] @ [okResult [txCommission, txPurchase]])"
    using i3 f by (rule mp)
  have i4: "transactionHash sampleDeriver txCommission ''hapoalim'' ''1234''
               = Inr ''2024-05-01_hapoalim_1234''
            \<and> transactionUniqueId sampleDeriver txCommission ''hapoalim'' ''1234''
               = Inr (uniqueId rowCommission) \<longrightarrow>
        toRow sampleDeriver ''hapoalim'' ''1234'' txCommission
          = Inr (augmented txCommission ''1234'' ''hapoalim'' ''2024-05-01_hapoalim_1234''
                   (uniqueId rowCommission))
        \<and> rowsOfTx sampleDeriver ''hapoalim'' ''1234'' txCommission
          = [augmented txCommission ''1234'' ''hapoalim'' ''2024-05-01_hapoalim_1234''
               (uniqueId rowCommission)]
        \<and> reportsOfTx sampleDeriver ''hapoalim'' ''1234'' txCommission = []"
    using t by (elim conjE) assumption
  have p3: "toRow sampleDeriver ''hapoalim'' ''1234'' txCommission
       = Inr (augmented txCommission ''1234'' ''hapoalim'' ''2024-05-01_hapoalim_1234''
                (uniqueId rowCommission))"
    using i4[THEN mp, OF conjI[OF k1 k2]] by (rule conjunct1)
  have p4: "canonicalOf sampleDeriver [failedResult, okResult [txCommission, txNoDate, txPurchase]]
       = [rowCommission, rowPurchase]"
    by (simp add: canonicalOf_def batchesOf_def failedResult_def okResult_def rowsOfTx_toRow
          toRow_commission toRow_purchase toRow_noDate)
  have k3: "transactionHash sampleDeriver txNoDate ''hapoalim'' ''1234''
              = Inl (Error ''Invalid time value'')"
    by (simp add: sampleDeriver_def txNoDate_def)
  note t' = normalizer_output_is_ordered_concatenation
            [where d = sampleDeriver and tx = txNoDate and cid = "''hapoalim''" and acc = "''1234''"
               and e = "Error ''Invalid time value''"]
  note i5 = t'[THEN conjunct2, THEN conjunct2, THEN conjunct2, THEN conjunct2, THEN conjunct1]
  have p5: "rowsOfTx sampleDeriver ''hapoalim'' ''1234'' txNoDate = []"
    using i5[THEN mp, OF disjI1[OF k3]] by (rule conjunct1)
  show ?thesis
    by (intro conjI f k1 k2 p3 p2 p1 p4 k3 p5)
qed

text \<open>
  C2. If deriving \<open>hash\<close> or \<open>uniqueId\<close> throws for one raw transaction, the Normalizer
  drops exactly that transaction, reports exactly one diagnostic error and continues with
  the remaining transactions. \<open>resultsToTransactions\<close> of \<open>src/bot/storage/index.ts\<close>
  does not: on a batch of a commission, a transaction without a date and a purchase it
  throws, where the version with the \<open>try\<close>/\<open>catch\<close> returns the two good rows and one
  report (\<open>txLoop_skips_malformed\<close> is the general statement for that version).
\<close>

theorem index_normalizer_aborts_on_malformed:
  "resultsToTransactions_index sampleDeriver [okResult [txCommission, txNoDate, txPurchase]]
     = Inl (Error ''Invalid time value'')
   \<and> resultsToTransactions sampleDeriver [okResult [txCommission, txNoDate, txPurchase]]
       = ([rowCommission, rowPurchase],
          [SendError (Error ''Invalid time value'') (FailedToProcess ''hapoalim'' ''1234'' txNoDate)])"
  by (simp add: resultsToTransactions_index_def resultsToTransactions_def okResult_def
        toRow_commission toRow_purchase toRow_noDate)

section \<open>The step timeline and the task of one backend: proofs\<close>

lemma closed_in_order_snoc:
  assumes "closed_in_order (ts @ [t])" "started t' = started t" "ended t' = Some e"
          "started t' \<le> e" "e < started u"
  shows "closed_in_order (ts @ [t', u])"
  using assms
  by (induction ts rule: closed_in_order.induct) (auto split: option.splits)

lemma steps_end_last:
  "steps s \<noteq> [] \<Longrightarrow>
     steps (end_last s) = butlast (steps s) @ [(last (steps s))\<lparr>ended := Some (clock s)\<rparr>]
     \<and> clock (end_last s) = Suc (clock s) \<and> trace (end_last s) = trace s"
  by (simp add: end_last_def Timer_end_def)

lemma end_last_Nil: "steps s = [] \<Longrightarrow> end_last s = s"
  by (simp add: end_last_def)

lemma onProgress_steps:
  "steps (onProgress msg name step s) =
     (if steps s = [] then [\<lparr>timer_name = step, started = clock s, ended = None\<rparr>]
      else butlast (steps s) @ [(last (steps s))\<lparr>ended := Some (clock s)\<rparr>,
                                \<lparr>timer_name = step, started = Suc (clock s), ended = None\<rparr>])"
  by (simp add: onProgress_def Timer_new_def Let_def steps_end_last end_last_Nil)

lemma onProgress_clock:
  "clock (onProgress msg name step s) = (if steps s = [] then Suc (clock s) else Suc (Suc (clock s)))"
  by (simp add: onProgress_def Timer_new_def Let_def steps_end_last end_last_Nil)

lemma trace_end_last: "trace (end_last s) = trace s"
  by (simp add: end_last_def Timer_end_def split: prod.splits)

lemma onProgress_trace:
  "trace (onProgress msg name step s) =
     trace s @ [EditMessage msg (Saving name (steps (onProgress msg name step s)))]"
  by (simp add: onProgress_def Timer_new_def Let_def trace_end_last)

lemma onProgress_inv:
  assumes "closed_in_order (steps s)" "open_last s"
  shows "closed_in_order (steps (onProgress msg name step s)) \<and> open_last (onProgress msg name step s)
         \<and> map timer_name (steps (onProgress msg name step s)) = map timer_name (steps s) @ [step]
         \<and> ended (last (steps (onProgress msg name step s))) = None"
proof (cases "steps s = []")
  case True
  then show ?thesis by (simp add: onProgress_steps onProgress_clock open_last_def)
next
  case False
  then obtain ts t where st: "steps s = ts @ [t]"
    by (metis append_butlast_last_id)
  with assms have o: "ended t = None" "started t < clock s"
    by (simp_all add: open_last_def)
  have "closed_in_order (ts @ [t\<lparr>ended := Some (clock s)\<rparr>,
                               \<lparr>timer_name = step, started = Suc (clock s), ended = None\<rparr>])"
    using assms(1) o unfolding st
    by (intro closed_in_order_snoc[where t = t and e = "clock s"]) simp_all
  then show ?thesis
    using st by (simp add: onProgress_steps onProgress_clock open_last_def)
qed

lemma progress_inv:
  assumes "closed_in_order (steps s)" "open_last s"
  shows "closed_in_order (steps (fold (onProgress msg name) names s))
         \<and> open_last (fold (onProgress msg name) names s)
         \<and> map timer_name (steps (fold (onProgress msg name) names s)) = map timer_name (steps s) @ names
         \<and> (names \<noteq> [] \<longrightarrow> ended (last (steps (fold (onProgress msg name) names s))) = None)"
  using assms
proof (induction names arbitrary: s rule: rev_induct)
  case Nil
  then show ?case by simp
next
  case (snoc x xs)
  from snoc.IH[OF snoc.prems]
  have ih: "closed_in_order (steps (fold (onProgress msg name) xs s))"
           "open_last (fold (onProgress msg name) xs s)"
           "map timer_name (steps (fold (onProgress msg name) xs s)) = map timer_name (steps s) @ xs"
    by simp_all
  from onProgress_inv[OF ih(1) ih(2), of msg name x] ih(3)
  show ?case by simp
qed

lemma progress_trace:
  "\<exists>es. trace (fold (onProgress msg name) names s) = trace s @ es \<and> length es = length names
        \<and> (\<forall>ev\<in>set es. \<exists>ts. ev = EditMessage msg (Saving name ts))"
proof (induction names rule: rev_induct)
  case Nil
  then show ?case by simp
next
  case (snoc x xs)
  then obtain es where es: "trace (fold (onProgress msg name) xs s) = trace s @ es"
      "length es = length xs" "\<forall>ev\<in>set es. \<exists>ts. ev = EditMessage msg (Saving name ts)"
    by blast
  let ?s' = "fold (onProgress msg name) (xs @ [x]) s"
  have "trace ?s' = trace s @ (es @ [EditMessage msg (Saving name (steps ?s'))])"
    using es(1) by (simp add: onProgress_trace)
  moreover have "length (es @ [EditMessage msg (Saving name (steps ?s'))]) = length (xs @ [x])"
    using es(2) by simp
  moreover have "\<forall>ev\<in>set (es @ [EditMessage msg (Saving name (steps ?s'))]).
                    \<exists>ts. ev = EditMessage msg (Saving name ts)"
    using es(3) by auto
  ultimately show ?case by blast
qed

lemma progressNames_snoc:
  "progressNames (acts @ [Progress step]) = progressNames acts @ [step]"
  "progressNames (acts @ [Report e l]) = progressNames acts"
  "progressNames (acts @ [Notify t]) = progressNames acts"
  by (simp_all add: progressNames_def)

lemma backendAction_simps:
  "backendAction msg name (Progress step) s = onProgress msg name step s"
  "backendAction msg name (Report e l) s = s\<lparr>trace := trace s @ [SendError e (Label l)]\<rparr>"
  "backendAction msg name (Notify t) s = s\<lparr>trace := trace s @ [Send (Plain t)]\<rparr>"
  by (simp_all add: backendAction_def)

lemma actions_steps_clock:
  "steps (fold (backendAction msg name) acts s)
     = steps (fold (onProgress msg name) (progressNames acts) s)
   \<and> clock (fold (backendAction msg name) acts s)
     = clock (fold (onProgress msg name) (progressNames acts) s)"
proof (induction acts rule: rev_induct)
  case Nil
  then show ?case by (simp add: progressNames_def)
next
  case (snoc a acts)
  let ?t = "fold (backendAction msg name) acts s"
  let ?u = "fold (onProgress msg name) (progressNames acts) s"
  from snoc have ih: "steps ?t = steps ?u" "clock ?t = clock ?u"
    by simp_all
  show ?case
  proof (cases a)
    case (Progress step)
    have "steps (onProgress msg name step ?t) = steps (onProgress msg name step ?u)"
      unfolding onProgress_steps ih by (rule refl)
    moreover have "clock (onProgress msg name step ?t) = clock (onProgress msg name step ?u)"
      unfolding onProgress_clock ih by (rule refl)
    ultimately show ?thesis
      by (simp add: Progress progressNames_snoc backendAction_simps)
  next
    case (Report e l)
    then show ?thesis
      using ih by (simp add: progressNames_snoc backendAction_simps)
  next
    case (Notify t)
    then show ?thesis
      using ih by (simp add: progressNames_snoc backendAction_simps)
  qed
qed

lemma actions_trace:
  "\<exists>es. trace (fold (backendAction msg name) acts s) = trace s @ es
        \<and> (\<forall>ev\<in>set es. (\<exists>ts. ev = EditMessage msg (Saving name ts))
                          \<or> (\<exists>e l. ev = SendError e (Label l))
        \<or> (\<exists>t. ev = Send (Plain t)))"
proof (induction acts rule: rev_induct)
  case Nil
  then show ?case by simp
next
  case (snoc a acts)
  then obtain es where es: "trace (fold (backendAction msg name) acts s) = trace s @ es"
      "\<forall>ev\<in>set es. (\<exists>ts. ev = EditMessage msg (Saving name ts))
                     \<or> (\<exists>e l. ev = SendError e (Label l))
        \<or> (\<exists>t. ev = Send (Plain t))"
    by blast
  let ?t = "fold (backendAction msg name) acts s"
  obtain ev where ev: "trace (backendAction msg name a ?t) = trace ?t @ [ev]"
      "(\<exists>ts. ev = EditMessage msg (Saving name ts)) \<or> (\<exists>e l. ev = SendError e (Label l))
        \<or> (\<exists>t. ev = Send (Plain t))"
  proof (cases a)
    case (Progress step)
    then show ?thesis
      using that[of "EditMessage msg (Saving name (steps (onProgress msg name step ?t)))"]
      by (simp add: backendAction_simps onProgress_trace)
  next
    case (Report e l)
    then show ?thesis
      using that[of "SendError e (Label l)"] by (simp add: backendAction_simps)
  next
    case (Notify t)
    then show ?thesis
      using that[of "Send (Plain t)"] by (simp add: backendAction_simps)
  qed
  have "trace (fold (backendAction msg name) (acts @ [a]) s) = trace s @ (es @ [ev])"
    using es(1) ev(1) by simp
  moreover have "\<forall>x\<in>set (es @ [ev]). (\<exists>ts. x = EditMessage msg (Saving name ts))
                     \<or> (\<exists>e l. x = SendError e (Label l))
        \<or> (\<exists>t. x = Send (Plain t))"
    using es(2) ev(2) by auto
  ultimately show ?case by blast
qed

lemma actions_inv:
  "closed_in_order (steps (fold (backendAction msg name) acts (start_state n rows)))
   \<and> open_last (fold (backendAction msg name) acts (start_state n rows))
   \<and> map timer_name (steps (fold (backendAction msg name) acts (start_state n rows)))
       = progressNames acts
   \<and> (progressNames acts \<noteq> []
        \<longrightarrow> ended (last (steps (fold (backendAction msg name) acts (start_state n rows)))) = None)"
proof -
  have i0: "closed_in_order (steps (start_state n rows))" "open_last (start_state n rows)"
    by (simp_all add: start_state_def open_last_def)
  note p = progress_inv[OF i0, of msg name "progressNames acts"]
  note q = actions_steps_clock[of msg name acts "start_state n rows"]
  have s: "steps (fold (backendAction msg name) acts (start_state n rows))
             = steps (fold (onProgress msg name) (progressNames acts) (start_state n rows))"
    using q by (rule conjunct1)
  have c: "clock (fold (backendAction msg name) acts (start_state n rows))
             = clock (fold (onProgress msg name) (progressNames acts) (start_state n rows))"
    using q by (rule conjunct2)
  have o: "open_last (fold (backendAction msg name) acts (start_state n rows))"
    using p unfolding open_last_def s c by blast
  have m: "map timer_name (steps (fold (onProgress msg name) (progressNames acts)
                                    (start_state n rows))) = progressNames acts"
    using p by (simp add: start_state_def)
  show ?thesis
    unfolding s using p o m unfolding s by blast
qed

lemma closed_in_order_butlast:
  "closed_in_order ts \<Longrightarrow> \<forall>t\<in>set (butlast ts). ended t \<noteq> None"
  by (induction ts rule: closed_in_order.induct) (auto split: option.splits)

lemma tryBlock_eq:
  assumes "saveTransactions st rows = (acts, out)"
  shows "tryBlock sr st rows =
     (let n = storage_name st; msg = sr (Saving n []);
          s2 = fold (backendAction msg n) acts (start_state n rows)
      in (case out of
            Rejects e \<Rightarrow> (Rejected e, s2)
          | Hangs \<Rightarrow> (Never, s2)
          | Resolves stats \<Rightarrow>
              (let s3 = end_last (s2\<lparr>clock := Suc (clock s2)\<rparr>)
               in (Fulfilled, s3\<lparr>trace := trace s3 @ [EditMessage msg (StatsString stats (clock s2) (steps s3))]\<rparr>))))"
  using assms by (cases out) (simp_all add: tryBlock_def Let_def start_state_def)

lemma start_state_inv: "closed_in_order (steps (start_state n rows)) \<and> open_last (start_state n rows)"
  by (simp add: start_state_def open_last_def)

lemma saveTask_rejects:
  assumes "saveTransactions st rows = (acts, Rejects e)"
  shows "\<exists>es s. saveTask sr st rows = (Fulfilled, s)
           \<and> trace s = [Send (Saving (storage_name st) []), SaveTransactions (storage_name st) rows] @ es
                        @ [SendError e (Label (''saveTransactions::'' @ storage_name st))]
           \<and> (\<forall>ev\<in>set es. (\<exists>ts. ev = EditMessage (sr (Saving (storage_name st) []))
                                         (Saving (storage_name st) ts))
                             \<or> (\<exists>e l. ev = SendError e (Label l))
        \<or> (\<exists>t. ev = Send (Plain t)))
           \<and> map timer_name (steps s) = progressNames acts \<and> closed_in_order (steps s)
           \<and> (progressNames acts \<noteq> [] \<longrightarrow> ended (last (steps s)) = None)"
proof -
  let ?n = "storage_name st"
  let ?msg = "sr (Saving ?n [])"
  let ?s2 = "fold (backendAction ?msg ?n) acts (start_state ?n rows)"
  obtain es where es: "trace ?s2 = trace (start_state ?n rows) @ es"
      "\<forall>ev\<in>set es. (\<exists>ts. ev = EditMessage ?msg (Saving ?n ts)) \<or> (\<exists>e l. ev = SendError e (Label l))
        \<or> (\<exists>t. ev = Send (Plain t))"
    using actions_trace by blast
  note i = actions_inv[of ?msg ?n acts ?n rows]
  have inv: "closed_in_order (steps ?s2)" "map timer_name (steps ?s2) = progressNames acts"
            "progressNames acts \<noteq> [] \<longrightarrow> ended (last (steps ?s2)) = None"
    by (rule i[THEN conjunct1], rule i[THEN conjunct2, THEN conjunct2, THEN conjunct1],
        rule i[THEN conjunct2, THEN conjunct2, THEN conjunct2])
  let ?S = "?s2\<lparr>trace := trace ?s2 @ [SendError e (Label (''saveTransactions::'' @ ?n))]\<rparr>"
  have eq: "saveTask sr st rows = (Fulfilled, ?S)"
    by (simp add: saveTask_def tryBlock_eq[OF assms] Let_def)
  have tr: "trace ?S = [Send (Saving ?n []), SaveTransactions ?n rows] @ es
                        @ [SendError e (Label (''saveTransactions::'' @ ?n))]"
    using es(1) by (simp add: start_state_def)
  have stp: "steps ?S = steps ?s2"
    by simp
  show ?thesis
    apply (rule exI[of _ es], rule exI[of _ ?S])
    unfolding stp by (intro conjI eq tr es(2) inv)
qed

lemma saveTask_resolves:
  assumes "saveTransactions st rows = (acts, Resolves stats)"
  shows "\<exists>es s d. saveTask sr st rows = (Fulfilled, s)
           \<and> trace s = [Send (Saving (storage_name st) []), SaveTransactions (storage_name st) rows] @ es
                        @ [EditMessage (sr (Saving (storage_name st) [])) (StatsString stats d (steps s))]
           \<and> (\<forall>ev\<in>set es. (\<exists>ts. ev = EditMessage (sr (Saving (storage_name st) []))
                                         (Saving (storage_name st) ts))
                             \<or> (\<exists>e l. ev = SendError e (Label l))
        \<or> (\<exists>t. ev = Send (Plain t)))
           \<and> map timer_name (steps s) = progressNames acts \<and> closed_in_order (steps s)
           \<and> (\<forall>t\<in>set (steps s). ended t \<noteq> None)"
proof -
  let ?n = "storage_name st"
  let ?msg = "sr (Saving ?n [])"
  let ?s2 = "fold (backendAction ?msg ?n) acts (start_state ?n rows)"
  let ?s3 = "end_last (?s2\<lparr>clock := Suc (clock ?s2)\<rparr>)"
  obtain es where es: "trace ?s2 = trace (start_state ?n rows) @ es"
      "\<forall>ev\<in>set es. (\<exists>ts. ev = EditMessage ?msg (Saving ?n ts)) \<or> (\<exists>e l. ev = SendError e (Label l))
        \<or> (\<exists>t. ev = Send (Plain t))"
    using actions_trace by blast
  note i = actions_inv[of ?msg ?n acts ?n rows]
  have inv: "closed_in_order (steps ?s2)" "map timer_name (steps ?s2) = progressNames acts"
    by (rule i[THEN conjunct1], rule i[THEN conjunct2, THEN conjunct2, THEN conjunct1])
  have st3: "map timer_name (steps ?s3) = progressNames acts \<and> closed_in_order (steps ?s3)
             \<and> (\<forall>t\<in>set (steps ?s3). ended t \<noteq> None) \<and> trace ?s3 = trace ?s2"
  proof (cases "steps ?s2 = []")
    case True
    with inv show ?thesis by (simp add: end_last_def)
  next
    case False
    then obtain ts t where ts: "steps ?s2 = ts @ [t]"
      by (metis append_butlast_last_id)
    have a: "steps ?s3 = ts @ [t\<lparr>ended := Some (Suc (clock ?s2))\<rparr>]"
      using ts by (simp add: end_last_def Timer_end_def)
    have b: "closed_in_order (ts @ [t\<lparr>ended := Some (Suc (clock ?s2))\<rparr>])"
      using inv(1) unfolding ts
      by (induction ts rule: closed_in_order.induct) (auto split: option.splits)
    have c: "\<forall>u\<in>set ts. ended u \<noteq> None"
      using closed_in_order_butlast[OF inv(1)] ts by simp
    from a b c inv(2) ts show ?thesis
      by (simp add: trace_end_last)
  qed
  let ?S = "?s3\<lparr>trace := trace ?s3 @ [EditMessage ?msg (StatsString stats (clock ?s2) (steps ?s3))]\<rparr>"
  have eq: "saveTask sr st rows = (Fulfilled, ?S)"
    by (simp add: saveTask_def tryBlock_eq[OF assms] Let_def)
  have stp: "steps ?S = steps ?s3"
    by simp
  have tr: "trace ?S = [Send (Saving ?n []), SaveTransactions ?n rows] @ es
                        @ [EditMessage ?msg (StatsString stats (clock ?s2) (steps ?S))]"
    using es(1) st3 unfolding stp by (simp add: start_state_def)
  have s1: "map timer_name (steps ?s3) = progressNames acts" using st3 by (rule conjunct1)
  have s2: "closed_in_order (steps ?s3)" using st3 by (elim conjE) assumption
  have s3: "\<forall>t\<in>set (steps ?s3). ended t \<noteq> None" using st3 by (elim conjE) assumption
  show ?thesis
    apply (rule exI[of _ es], rule exI[of _ ?S], rule exI[of _ "clock ?s2"])
    unfolding stp by (intro conjI eq tr[unfolded stp] es(2) s1 s2 s3)
qed

lemma saveTask_never_rejects: "fst (saveTask sr st rows) \<noteq> Rejected e"
proof -
  obtain names out where so: "saveTransactions st rows = (names, out)"
    by (cases "saveTransactions st rows")
  show ?thesis
    by (cases out) (simp_all add: saveTask_def tryBlock_eq[OF so] Let_def)
qed

lemma saveTask_settles:
  assumes "snd (saveTransactions st rows) \<noteq> Hangs"
  shows "fst (saveTask sr st rows) = Fulfilled"
proof -
  obtain names out where so: "saveTransactions st rows = (names, out)"
    by (cases "saveTransactions st rows")
  with assms have "out \<noteq> Hangs" by simp
  then show ?thesis
    by (cases out) (simp_all add: saveTask_def tryBlock_eq[OF so] Let_def)
qed

lemma parallel_not_rejected:
  assumes "\<forall>t\<in>set ts. \<forall>e. fst t \<noteq> Rejected e"
  shows "parallel ts \<noteq> Rejected e'"
proof -
  have "\<not> (r \<noteq> Fulfilled \<and> r \<noteq> Never)" if "r \<in> set (map fst ts)" for r
    by (cases r) (use that assms in force)+
  then have "filter (\<lambda>r. r \<noteq> Fulfilled \<and> r \<noteq> Never) (map fst ts) = []"
    unfolding filter_empty_conv by blast
  then show ?thesis by (simp add: parallel_def)
qed

lemma parallel_fulfilled:
  assumes "\<forall>t\<in>set ts. fst t = Fulfilled"
  shows "parallel ts = Fulfilled"
proof -
  have "\<not> (r \<noteq> Fulfilled \<and> r \<noteq> Never)" if "r \<in> set (map fst ts)" for r
    using that assms by auto
  then have "filter (\<lambda>r. r \<noteq> Fulfilled \<and> r \<noteq> Never) (map fst ts) = []"
    unfolding filter_empty_conv by blast
  moreover have "Never \<notin> set (map fst ts)"
    using assms by auto
  ultimately show ?thesis by (simp add: parallel_def)
qed

lemma parallel_pending:
  assumes "\<forall>t\<in>set ts. \<forall>e. fst t \<noteq> Rejected e" "t \<in> set ts" "fst t = Never"
  shows "parallel ts = Never"
proof -
  have "\<not> (r \<noteq> Fulfilled \<and> r \<noteq> Never)" if "r \<in> set (map fst ts)" for r
    by (cases r) (use that assms(1) in force)+
  then have "filter (\<lambda>r. r \<noteq> Fulfilled \<and> r \<noteq> Never) (map fst ts) = []"
    unfolding filter_empty_conv by blast
  moreover have "Never \<in> set (map fst ts)"
    using assms(2,3) by force
  ultimately show ?thesis by (simp add: parallel_def)
qed

lemma saveTask_hangs:
  assumes "snd (saveTransactions st rows) = Hangs"
  shows "fst (saveTask sr st rows) = Never"
proof -
  obtain names out where so: "saveTransactions st rows = (names, out)"
    by (cases "saveTransactions st rows")
  with assms have "out = Hangs" by simp
  then show ?thesis
    by (simp add: saveTask_def tryBlock_eq[OF so] Let_def)
qed

section \<open>The invoice step: proofs\<close>

lemma same_but_links_refl: "same_but_links r r"
  by (simp add: same_but_links_def)

lemma same_but_links_pdf: "same_but_links r c \<Longrightarrow> same_but_links (r\<lparr>pdf_link := p\<rparr>) c"
  by (simp add: same_but_links_def)

lemma same_but_links_doc: "same_but_links r c \<Longrightarrow> same_but_links (r\<lparr>doc_number := p\<rparr>) c"
proof -
  assume a: "same_but_links r c"
  have "r\<lparr>doc_number := p, pdf_link := pdf_link c, doc_number := doc_number c\<rparr>
          = r\<lparr>pdf_link := pdf_link c, doc_number := doc_number c\<rparr>"
    by simp
  with a show ?thesis by (simp add: same_but_links_def)
qed

lemma update_frame:
  assumes "\<forall>b<length h. same_but_links (h ! b) (h0 ! b)" "same_but_links r (h ! a)" "length h = length h0"
  shows "\<forall>b<length h0. same_but_links (h[a := r] ! b) (h0 ! b)"
proof (intro allI impI)
  fix b assume b: "b < length h0"
  show "same_but_links (h[a := r] ! b) (h0 ! b)"
  proof (cases "b = a")
    case True
    have "same_but_links r (h0 ! a)"
    proof -
      have 1: "r\<lparr>pdf_link := pdf_link (h ! a), doc_number := doc_number (h ! a)\<rparr> = h ! a"
        using assms(2) by (simp add: same_but_links_def)
      have 2: "(h ! a)\<lparr>pdf_link := pdf_link (h0 ! a), doc_number := doc_number (h0 ! a)\<rparr> = h0 ! a"
        using assms(1,3) b True by (simp add: same_but_links_def)
      have "r\<lparr>pdf_link := pdf_link (h0 ! a), doc_number := doc_number (h0 ! a)\<rparr>
              = (r\<lparr>pdf_link := pdf_link (h ! a), doc_number := doc_number (h ! a)\<rparr>)
                  \<lparr>pdf_link := pdf_link (h0 ! a), doc_number := doc_number (h0 ! a)\<rparr>"
        by simp
      also have "\<dots> = h0 ! a"
        by (simp only: 1 2)
      finally show ?thesis by (simp add: same_but_links_def)
    qed
    then show ?thesis using True b assms(3) by simp
  next
    case False
    then show ?thesis using assms(1,3) b by simp
  qed
qed

lemma createInvoices_frame_gen:
  assumes "length h = length h0" "\<forall>b<length h. same_but_links (h ! b) (h0 ! b)"
  shows "length (createInvoicesForTransactions api as h) = length h0
         \<and> (\<forall>b<length h0. same_but_links (createInvoicesForTransactions api as h ! b) (h0 ! b))"
  using assms
proof (induction as arbitrary: h)
  case Nil
  then show ?case by simp
next
  case (Cons a as)
  show ?case
  proof (cases "createInvoiceForTransaction api (h ! a)")
    case (Inl e)
    then show ?thesis using Cons by simp
  next
    case (Inr pd)
    obtain p d where pd: "pd = (p, d)" by (cases pd)
    let ?h1 = "if truthy p then h[a := (h ! a)\<lparr>pdf_link := p\<rparr>] else h"
    let ?h2 = "if truthy d then ?h1[a := (?h1 ! a)\<lparr>doc_number := d\<rparr>] else ?h1"
    have l1: "length ?h1 = length h0" using Cons.prems(1) by simp
    have f1: "\<forall>b<length ?h1. same_but_links (?h1 ! b) (h0 ! b)"
      using update_frame[OF Cons.prems(2) same_but_links_pdf[OF same_but_links_refl] Cons.prems(1),
              of a p] Cons.prems
      by simp
    have l2: "length ?h2 = length h0" using l1 by simp
    have f2: "\<forall>b<length ?h2. same_but_links (?h2 ! b) (h0 ! b)"
      using update_frame[OF f1 same_but_links_doc[OF same_but_links_refl] l1, of a d] f1 l1
      by simp
    have "createInvoicesForTransactions api (a # as) h = createInvoicesForTransactions api as ?h2"
      using Inr pd by (simp add: Let_def)
    then show ?thesis
      using Cons.IH[OF l2 f2] by simp
  qed
qed

lemma createInvoices_frame:
  "length (createInvoicesForTransactions api as h) = length h
   \<and> (\<forall>b<length h. same_but_links (createInvoicesForTransactions api as h ! b) (h ! b))"
  by (rule createInvoices_frame_gen) (simp_all add: same_but_links_refl)

lemma createInvoices_untouched:
  "a \<notin> set as \<Longrightarrow> createInvoicesForTransactions api as h ! a = h ! a"
proof (induction as arbitrary: h)
  case Nil
  then show ?case by simp
next
  case (Cons b as)
  then have ne: "a \<noteq> b" and nin: "a \<notin> set as"
    by auto
  show ?case
  proof (cases "createInvoiceForTransaction api (h ! b)")
    case (Inl e)
    then show ?thesis using Cons.IH[OF nin, of h] by simp
  next
    case (Inr pd)
    obtain p d where pd: "pd = (p, d)" by (cases pd)
    let ?h1 = "if truthy p then h[b := (h ! b)\<lparr>pdf_link := p\<rparr>] else h"
    let ?h2 = "if truthy d then ?h1[b := (?h1 ! b)\<lparr>doc_number := d\<rparr>] else ?h1"
    have u: "?h2 ! a = h ! a"
      using ne by simp
    have "createInvoicesForTransactions api (b # as) h = createInvoicesForTransactions api as ?h2"
      using Inr pd by (simp add: Let_def)
    then show ?thesis
      using Cons.IH[OF nin, of ?h2] u by simp
  qed
qed

lemma same_but_links_withLinks: "same_but_links (withLinks p d r) r"
  by (simp add: same_but_links_def withLinks_def)

lemma same_but_links_invoiced: "same_but_links (invoiced api r) r"
  by (cases "api r") (simp_all add: invoiced_def same_but_links_withLinks same_but_links_refl)

lemma loop_body_eq:
  "truthy p \<Longrightarrow> truthy d \<Longrightarrow>
     h[a := (h[a := (h ! a)\<lparr>pdf_link := p\<rparr>] ! a)\<lparr>doc_number := d\<rparr>] = h[a := withLinks p d (h ! a)]"
  "truthy p \<Longrightarrow> \<not> truthy d \<Longrightarrow> h[a := (h ! a)\<lparr>pdf_link := p\<rparr>] = h[a := withLinks p d (h ! a)]"
  "\<not> truthy p \<Longrightarrow> truthy d \<Longrightarrow> h[a := (h ! a)\<lparr>doc_number := d\<rparr>] = h[a := withLinks p d (h ! a)]"
  "\<not> truthy p \<Longrightarrow> \<not> truthy d \<Longrightarrow> h[a := withLinks p d (h ! a)] = h"
  by (cases "a < length h"; simp add: withLinks_def list_update_beyond)+

lemma createInvoices_Cons:
  "createInvoicesForTransactions api (a # as) h
     = createInvoicesForTransactions api as (h[a := invoiced api (h ! a)])"
  by (cases "api (h ! a)")
     (simp_all add: createInvoiceForTransaction_def invoiced_def loop_body_eq)

lemma createInvoices_map:
  assumes "distinct as" "\<forall>a\<in>set as. a < length h"
  shows "createInvoicesForTransactions api as h
           = map (\<lambda>b. if b \<in> set as then invoiced api (h ! b) else h ! b) [0..<length h]"
  using assms
proof (induction as arbitrary: h)
  case Nil
  then show ?case by (simp add: map_nth)
next
  case (Cons a as)
  let ?h = "h[a := invoiced api (h ! a)]"
  have d: "distinct as" and nin: "a \<notin> set as" and a: "a < length h"
    and r: "\<forall>b\<in>set as. b < length ?h"
    using Cons.prems by auto
  have "createInvoicesForTransactions api (a # as) h
          = map (\<lambda>b. if b \<in> set as then invoiced api (?h ! b) else ?h ! b) [0..<length ?h]"
    unfolding createInvoices_Cons by (rule Cons.IH[OF d r])
  also have "\<dots> = map (\<lambda>b. if b \<in> set (a # as) then invoiced api (h ! b) else h ! b) [0..<length h]"
    using nin a by (auto simp: nth_list_update)
  finally show ?case .
qed

lemma filter_vendor_eq:
  "filterInsuranceVendorTransactions h arr = filter (\<lambda>a. isInsuranceVendorTransaction (h ! a)) arr"
  by (simp add: filterInsuranceVendorTransactions_def isInsuranceVendorTransaction_def conj_commute)

lemma filter_vendor_empty:
  "(filterInsuranceVendorTransactions h [0..<length h] = [])
     = (\<forall>b<length h. \<not> isInsuranceVendorTransaction (h ! b))"
  by (auto simp: filter_vendor_eq filter_empty_conv)

lemma InvoiceCreator_new_simps:
  "InvoiceCreator_new (Some True) = Inr ()"
  "InvoiceCreator_new None
     = Inl (Error ''TypeError: Cannot read properties of undefined (reading storage)'')"
  by (simp_all add: InvoiceCreator_new_def)

lemma invoiceStep_eq:
  "invoiceStep env h =
     Inr (if invoice_configured env \<and> filterInsuranceVendorTransactions h [0..<length h] \<noteq> []
          then createInvoicesForTransactions (createDoc env)
                 (filterInsuranceVendorTransactions h [0..<length h]) h
          else h)"
  by (simp add: invoiceStep_def Let_def InvoiceCreator_new_simps)

lemma invoiceStep_frame:
  assumes "invoiceStep env h = Inr h'"
  shows "length h' = length h
   \<and> (\<forall>b<length h. same_but_links (h' ! b) (h ! b))
   \<and> (\<forall>b<length h. \<not> isInsuranceVendorTransaction (h ! b) \<longrightarrow> h' ! b = h ! b)
   \<and> (\<not> invoice_configured env \<longrightarrow> h' = h)"
proof -
  let ?f = "filterInsuranceVendorTransactions h [0..<length h]"
  from assms have h': "h' = (if invoice_configured env \<and> ?f \<noteq> []
          then createInvoicesForTransactions (createDoc env) ?f h else h)"
    by (simp add: invoiceStep_eq)
  have c1: "length h' = length h"
    using createInvoices_frame[of "createDoc env" ?f h] by (simp add: h')
  have c2: "\<forall>b<length h. same_but_links (h' ! b) (h ! b)"
    using createInvoices_frame[of "createDoc env" ?f h] by (simp add: h' same_but_links_refl)
  have c3: "\<forall>b<length h. \<not> isInsuranceVendorTransaction (h ! b) \<longrightarrow> h' ! b = h ! b"
  proof (intro allI impI)
    fix b assume "b < length h" "\<not> isInsuranceVendorTransaction (h ! b)"
    then have "b \<notin> set ?f"
      by (simp add: filter_vendor_eq)
    then show "h' ! b = h ! b"
      by (simp add: h' createInvoices_untouched)
  qed
  have c4: "\<not> invoice_configured env \<longrightarrow> h' = h"
    by (simp add: h')
  show ?thesis
    by (intro conjI c1 c2 c3 c4)
qed

lemma invoiceStep_map:
  "invoiceStep env h
     = Inr (map (\<lambda>r. if invoice_configured env \<and> isInsuranceVendorTransaction r
                      then invoiced (createDoc env) r else r) h)"
proof -
  let ?f = "filterInsuranceVendorTransactions h [0..<length h]"
  have d: "distinct ?f" and r: "\<forall>a\<in>set ?f. a < length h"
    by (simp_all add: filter_vendor_eq)
  have m: "createInvoicesForTransactions (createDoc env) ?f h
             = map (\<lambda>r. if isInsuranceVendorTransaction r then invoiced (createDoc env) r else r) h"
    unfolding createInvoices_map[OF d r]
    by (rule nth_equalityI) (simp_all add: filter_vendor_eq)
  have e: "?f = [] \<Longrightarrow>
             map (\<lambda>r. if isInsuranceVendorTransaction r then invoiced (createDoc env) r else r) h = h"
    by (rule nth_equalityI) (simp_all add: filter_vendor_empty)
  show ?thesis
  proof (cases "invoice_configured env")
    case False
    then show ?thesis by (simp add: invoiceStep_eq)
  next
    case True
    show ?thesis
    proof (cases "?f = []")
      case True
      with \<open>invoice_configured env\<close> e show ?thesis by (simp add: invoiceStep_eq)
    next
      case False
      with \<open>invoice_configured env\<close> m show ?thesis by (simp add: invoiceStep_eq)
    qed
  qed
qed

lemma invoiceStep_total: "\<exists>h'. invoiceStep env h = Inr h'"
  by (simp add: invoiceStep_eq)

section \<open>One run of \<open>saveResults\<close>: proofs\<close>

lemma errorReports_append: "errorReports (xs @ ys) = errorReports xs @ errorReports ys"
  by (simp add: errorReports_def)





lemma saveCalls_saveTask: "saveCalls (saveTask sr st rows) = [(storage_name st, rows)]"
proof -
  obtain acts out where so: "saveTransactions st rows = (acts, out)"
    by (cases "saveTransactions st rows")
  let ?n = "storage_name st"
  let ?msg = "sr (Saving ?n [])"
  let ?s2 = "fold (backendAction ?msg ?n) acts (start_state ?n rows)"
  let ?c = "\<lambda>ev. case ev of SaveTransactions n rows \<Rightarrow> [(n, rows)] | _ \<Rightarrow> []"
  obtain es where es: "trace ?s2 = trace (start_state ?n rows) @ es"
      "\<forall>ev\<in>set es. (\<exists>ts. ev = EditMessage ?msg (Saving ?n ts)) \<or> (\<exists>e l. ev = SendError e (Label l))
        \<or> (\<exists>t. ev = Send (Plain t))"
    using actions_trace by blast
  have "\<forall>ev\<in>set xs. (\<exists>ts. ev = EditMessage ?msg (Saving ?n ts)) \<or> (\<exists>e l. ev = SendError e (Label l))
        \<or> (\<exists>t. ev = Send (Plain t))
          \<Longrightarrow> concat (map ?c xs) = []" for xs
    by (induction xs) auto
  then have e0: "concat (map ?c es) = []"
    using es(2) by blast
  have tr2: "concat (map ?c (trace ?s2)) = [(?n, rows)]"
    unfolding es(1) using e0 by (simp add: start_state_def)
  show ?thesis
  proof (cases out)
    case (Resolves stats)
    let ?s3 = "end_last (?s2\<lparr>clock := Suc (clock ?s2)\<rparr>)"
    have "trace ?s3 = trace ?s2" by (simp add: trace_end_last)
    then show ?thesis
      using tr2 by (simp add: saveTask_def tryBlock_eq[OF so] Resolves Let_def saveCalls_def)
  next
    case (Rejects e)
    then show ?thesis
      using tr2 by (simp add: saveTask_def tryBlock_eq[OF so] Let_def saveCalls_def)
  next
    case Hangs
    then show ?thesis
      using tr2 by (simp add: saveTask_def tryBlock_eq[OF so] Let_def saveCalls_def)
  qed
qed

lemma saveCalls_fanOut:
  "map saveCalls (fanOut sr storages rows) = map (\<lambda>st. [(storage_name st, rows)]) storages"
  by (simp add: fanOut_def saveCalls_saveTask)

lemma fanOut_nth:
  "j < length storages \<Longrightarrow> fanOut sr storages rows ! j = saveTask sr (storages ! j) rows"
  by (simp add: fanOut_def)

lemma fanOut_never_rejected: "parallel (fanOut sr storages rows) \<noteq> Rejected e'"
  by (rule parallel_not_rejected) (auto simp: fanOut_def saveTask_never_rejects)

lemma fanOut_fulfilled:
  assumes "\<forall>st\<in>set storages. snd (saveTransactions st rows) \<noteq> Hangs"
  shows "parallel (fanOut sr storages rows) = Fulfilled"
  by (rule parallel_fulfilled) (use assms in \<open>auto simp: fanOut_def saveTask_settles\<close>)

lemma fanOut_pending:
  assumes "\<exists>st\<in>set storages. snd (saveTransactions st rows) = Hangs"
  shows "parallel (fanOut sr storages rows) = Never"
proof -
  from assms obtain st where st: "st \<in> set storages" "snd (saveTransactions st rows) = Hangs"
    by blast
  have a: "\<forall>t\<in>set (fanOut sr storages rows). \<forall>e. fst t \<noteq> Rejected e"
    by (auto simp: fanOut_def saveTask_never_rejects)
  have b: "saveTask sr st rows \<in> set (fanOut sr storages rows)"
    using st(1) by (simp add: fanOut_def)
  show ?thesis
    by (rule parallel_pending[OF a b saveTask_hangs[OF st(2)]])
qed

text \<open>
  The run of \<open>saveResults\<close> when there are backends and canonical rows: the fan-out over
  the store that the invoice step left, joined by \<open>parallel\<close>.
\<close>

lemma saveResults_run:
  assumes "storages \<noteq> []" "fst (resultsToTransactions (deriver env) results) = allT" "allT \<noteq> []"
    "invoiceStep env allT = Inr h"
  shows "saveResults env storages results
           = \<lparr>settled = parallel (fanOut (send_reply env) storages h),
              main_trace = snd (resultsToTransactions (deriver env) results),
              tasks = fanOut (send_reply env) storages h\<rparr>"
proof -
  have r: "resultsToTransactions (deriver env) results
             = (allT, snd (resultsToTransactions (deriver env) results))"
    using assms(2) by (metis prod.collapse)
  have "length h = length allT"
    using invoiceStep_frame[OF assms(4)] by (rule conjunct1)
  then have m: "map ((!) h) [0..<length allT] = h"
    by (metis map_nth)
  show ?thesis
    apply (subst saveResults_def)
    apply (subst r)
    using assms(1,3,4) by (simp add: m Let_def)
qed

lemma saveResults_never_rejects: "settled (saveResults env storages results) \<noteq> Rejected e'"
proof -
  obtain allT reports where r: "resultsToTransactions (deriver env) results = (allT, reports)"
    by (cases "resultsToTransactions (deriver env) results")
  obtain h where h: "invoiceStep env allT = Inr h"
    using invoiceStep_total by blast
  show ?thesis
    by (simp add: saveResults_def r h Let_def fanOut_never_rejected)
qed

lemma saveResults_index_tasks: "tasks (saveResults_index env storages results) = []"
  by (simp add: saveResults_index_def Let_def InvoiceCreator_new_simps split: sum.splits)

lemma saveResults_index_rejects:
  assumes "settled (saveResults_index env storages results) = Rejected e'"
  shows "resultsToTransactions_index (deriver env) results = Inl e'
         \<or> InvoiceCreator_new None = Inl e'"
  using assms
  by (simp add: saveResults_index_def Let_def InvoiceCreator_new_simps split: sum.splits if_splits)

section \<open>Claims about the Orchestrator\<close>

lemma open_steps_last:
  assumes "closed_in_order ts" "ts \<noteq> []" "ended (last ts) = None"
  shows "filter (\<lambda>t. ended t = None) ts = [last ts]"
proof -
  have "filter (\<lambda>t. ended t = None) (butlast ts) = []"
    using closed_in_order_butlast[OF assms(1)] by (simp add: filter_empty_conv)
  moreover have "ts = butlast ts @ [last ts]"
    using assms(2) by simp
  ultimately have "filter (\<lambda>t. ended t = None) ts
                     = [] @ filter (\<lambda>t. ended t = None) [last ts]"
    by (metis filter_append)
  then show ?thesis
    using assms(3) by simp
qed

text \<open>
  C7. For every sequence of \<open>n\<close> calls \<open>onProgress(stepName)\<close> made by one backend during
  its save, starting from the empty array \<open>steps\<close>, and for every prefix of \<open>k\<close> of these
  calls: the timeline holds exactly \<open>k\<close> timers, named in call order; every timer but the
  last was closed, not before its own start and before its successor was opened; and the
  open timers are exactly the most recent one. Each call first ends the previous timer, if
  any, and then appends the new one.
\<close>

theorem progress_timeline:
  assumes "steps s0 = []" "k \<le> length names"
  shows "length (steps (fold (onProgress msg name) (take k names) s0)) = k
     \<and> map timer_name (steps (fold (onProgress msg name) (take k names) s0)) = take k names
     \<and> closed_in_order (steps (fold (onProgress msg name) (take k names) s0))
     \<and> filter (\<lambda>t. ended t = None) (steps (fold (onProgress msg name) (take k names) s0))
         = (if k = 0 then [] else [last (steps (fold (onProgress msg name) (take k names) s0))])
     \<and> steps (onProgress msg name step s) =
         (if steps s = [] then [\<lparr>timer_name = step, started = clock s, ended = None\<rparr>]
          else butlast (steps s) @ [(last (steps s))\<lparr>ended := Some (clock s)\<rparr>,
                                    \<lparr>timer_name = step, started = Suc (clock s), ended = None\<rparr>])"
proof -
  let ?s = "fold (onProgress msg name) (take k names) s0"
  have inv0: "closed_in_order (steps s0)" "open_last s0"
    using assms(1) by (simp_all add: open_last_def)
  note inv = progress_inv[OF inv0, of msg name "take k names"]
  have names: "map timer_name (steps ?s) = take k names"
    using inv assms(1) by simp
  have len: "length (steps ?s) = k"
  proof -
    have "length (map timer_name (steps ?s)) = length (take k names)"
      by (simp only: names)
    then show ?thesis using assms(2) by simp
  qed
  have opn: "filter (\<lambda>t. ended t = None) (steps ?s) = (if k = 0 then [] else [last (steps ?s)])"
  proof (cases "k = 0")
    case True
    then show ?thesis using assms(1) by simp
  next
    case False
    then have ne: "take k names \<noteq> []" using assms(2) by auto
    then have "steps ?s \<noteq> []" using names by auto
    moreover have "ended (last (steps ?s)) = None" using inv ne by blast
    ultimately show ?thesis
      using open_steps_last[of "steps ?s"] inv False by simp
  qed
  have cio: "closed_in_order (steps ?s)"
    using inv by (rule conjunct1)
  show ?thesis
    by (intro conjI len names cio opn onProgress_steps)
qed

theorem progress_timeline_witness:
  "steps \<lparr>clock = 1, steps = [], trace = []\<rparr> = []
   \<and> (2::nat) \<le> length [''fetch'', ''write'']
   \<and> steps (fold (onProgress (Some 1) ''YNABStorage'') [''fetch'', ''write'']
               \<lparr>clock = 1, steps = [], trace = []\<rparr>)
       = [\<lparr>timer_name = ''fetch'', started = 1, ended = Some 2\<rparr>,
          \<lparr>timer_name = ''write'', started = 3, ended = None\<rparr>]
   \<and> closed_in_order (steps (fold (onProgress (Some 1) ''YNABStorage'') (take 2 [''fetch'', ''write''])
               \<lparr>clock = 1, steps = [], trace = []\<rparr>))"
proof -
  have a: "steps \<lparr>clock = 1, steps = [], trace = []\<rparr> = []" by simp
  have b: "(2::nat) \<le> length [''fetch'', ''write'']" by simp
  have c: "steps (fold (onProgress (Some 1) ''YNABStorage'') [''fetch'', ''write'']
               \<lparr>clock = 1, steps = [], trace = []\<rparr>)
       = [\<lparr>timer_name = ''fetch'', started = 1, ended = Some 2\<rparr>,
          \<lparr>timer_name = ''write'', started = 3, ended = None\<rparr>]"
    by (simp add: onProgress_def end_last_def Timer_new_def Timer_end_def Let_def)
  have d: "closed_in_order (steps (fold (onProgress (Some 1) ''YNABStorage'') (take 2 [''fetch'', ''write''])
               \<lparr>clock = 1, steps = [], trace = []\<rparr>))"
    using progress_timeline[OF a b, of "Some 1" "''YNABStorage''" "''fetch''"
            "\<lparr>clock = 1, steps = [], trace = []\<rparr>"]
    by (elim conjE) assumption
  show ?thesis
    by (intro conjI a b c d)
qed


section \<open>The concrete inputs, evaluated\<close>

lemma storageA_save:
  "saveTransactions storageA rows = ([Progress ''fetch''], Rejects (Error ''connection refused''))"
  by (simp add: storageA_def)

lemma storageB_save:
  "saveTransactions storageB rows
     = ([Progress ''fetch'', Progress ''write''], Resolves (statsB rows))"
  by (simp add: storageB_def)

lemma storageG_save:
  "saveTransactions storageG rows
     = ([Progress ''Loading header row'',
         Report (Error ''quota exceeded'') ''GoogleSheetsStorage::loadHeaderRow'',
         Progress ''Loading header row failed''],
        Rejects (Error ''Failed to load header row''))"
  by (simp add: storageG_def)

lemma storageH_save: "snd (saveTransactions storageH rows) = Hangs"
  by (simp add: storageH_def)

lemma filter_sample:
  "filterInsuranceVendorTransactions [rowCommission, rowPurchase] [0..<length [rowCommission, rowPurchase]] = [0]"
  by (simp add: filterInsuranceVendorTransactions_def rowCommission_def rowPurchase_def
        vendorRegex_test_def vendors_def upt_rec)

lemma filter_purchase:
  "filterInsuranceVendorTransactions [rowPurchase] [0..<length [rowPurchase]] = []"
  by (simp add: filterInsuranceVendorTransactions_def rowPurchase_def)

lemma invoices_down:
  "createInvoicesForTransactions (createDoc sampleEnvDown) [0] [rowCommission, rowPurchase]
     = [rowCommission, rowPurchase]"
  by (simp add: createInvoiceForTransaction_def sampleEnvDown_def)

lemma invoices_up:
  "createInvoicesForTransactions (createDoc sampleEnv) [0] [rowCommission, rowPurchase]
     = [rowCommission\<lparr>pdf_link := Some ''https://docs.example/1.pdf'', doc_number := Some ''17''\<rparr>,
        rowPurchase]"
  by (simp add: createInvoiceForTransaction_def sampleEnv_def truthy_def Let_def)

lemma canonical_sample:
  "resultsToTransactions sampleDeriver [okResult [txCommission, txPurchase]]
     = ([rowCommission, rowPurchase], [])"
  by (simp add: resultsToTransactions_def okResult_def toRow_commission toRow_purchase)

lemma canonical_purchase:
  "resultsToTransactions sampleDeriver [okResult [txPurchase]] = ([rowPurchase], [])"
  by (simp add: resultsToTransactions_def okResult_def toRow_purchase)

lemma canonical_index_sample:
  "resultsToTransactions_index sampleDeriver [okResult [txCommission, txPurchase]]
     = Inr [rowCommission, rowPurchase]"
  by (simp add: resultsToTransactions_index_def okResult_def toRow_commission toRow_purchase)


lemma sampleEnv_simps:
  "deriver sampleEnv = sampleDeriver" "deriver sampleEnvDown = sampleDeriver"
  "invoice_configured sampleEnv" "invoice_configured sampleEnvDown"
  by (simp_all add: sampleEnv_def sampleEnvDown_def)

lemma invoiceStep_up:
  "invoiceStep sampleEnv [rowCommission, rowPurchase]
     = Inr [rowCommission\<lparr>pdf_link := Some ''https://docs.example/1.pdf'', doc_number := Some ''17''\<rparr>,
            rowPurchase]"
  unfolding invoiceStep_eq filter_sample invoices_up
  by (simp add: sampleEnv_simps)

lemma invoiceStep_down:
  "invoiceStep sampleEnvDown [rowCommission, rowPurchase] = Inr [rowCommission, rowPurchase]"
  unfolding invoiceStep_eq filter_sample invoices_down
  by (simp add: sampleEnv_simps)

text \<open>
  C1. In every run of \<open>saveResults\<close> with canonical rows, in which the save of backend
  \<open>i\<close> rejects and the save of backend \<open>j\<close> resolves with \<open>stats\<close>, on the rows \<open>h\<close> that the
  invoice step leaves: the run starts the fan-out, one task per backend, each on \<open>h\<close>; its
  promise is the join of these tasks; the task of \<open>j\<close> is the same whatever backend stands
  at position \<open>i\<close>; the rejection of \<open>i\<close> is caught in its own task, which fulfils and
  ends with the report of the error tagged with its name; the task of \<open>j\<close> fulfils and its
  last notifier call is the stats message for \<open>stats\<close>; the promise of the run never
  rejects, it fulfils when no backend hangs and stays pending as long as one does. The
  promise of \<open>saveResults\<close> rejects in no run at all. In the version of
  \<open>src/bot/storage/index.ts\<close> no backend task is ever started: a run that gets past the
  two early returns ends at \<open>new InvoiceCreator()\<close>, and its promise rejects only with the
  error of the Normalizer or of that constructor, never with that of a backend. The tasks
  share no state, so the order in which their steps interleave does not enter.
\<close>

theorem backend_failure_is_isolated:
  assumes "fst (resultsToTransactions (deriver env) results) = allT" "allT \<noteq> []"
    "invoiceStep env allT = Inr h"
    "i < length storages" "j < length storages"
    "saveTransactions (storages ! i) h = (acts_i, Rejects e)"
    "saveTransactions (storages ! j) h = (acts_j, Resolves stats)"
  shows "tasks (saveResults env storages results) = fanOut (send_reply env) storages h
    \<and> length (tasks (saveResults env storages results)) = length storages
    \<and> settled (saveResults env storages results) = parallel (tasks (saveResults env storages results))
    \<and> tasks (saveResults env (storages[i := other]) results) ! j
        = tasks (saveResults env storages results) ! j
    \<and> fst (tasks (saveResults env storages results) ! i) = Fulfilled
    \<and> last (trace (snd (tasks (saveResults env storages results) ! i)))
        = SendError e (Label (''saveTransactions::'' @ storage_name (storages ! i)))
    \<and> fst (tasks (saveResults env storages results) ! j) = Fulfilled
    \<and> (\<exists>d. last (trace (snd (tasks (saveResults env storages results) ! j)))
              = EditMessage (send_reply env (Saving (storage_name (storages ! j)) []))
                  (StatsString stats d (steps (snd (tasks (saveResults env storages results) ! j)))))
    \<and> settled (saveResults env storages results) \<noteq> Rejected e'
    \<and> ((\<forall>st\<in>set storages. snd (saveTransactions st h) \<noteq> Hangs)
         \<longrightarrow> settled (saveResults env storages results) = Fulfilled)
    \<and> ((\<exists>st\<in>set storages. snd (saveTransactions st h) = Hangs)
         \<longrightarrow> settled (saveResults env storages results) = Never)
    \<and> settled (saveResults env2 storages2 results2) \<noteq> Rejected e'
    \<and> tasks (saveResults_index env2 storages2 results2) = []
    \<and> (settled (saveResults_index env2 storages2 results2) = Rejected e'
         \<longrightarrow> resultsToTransactions_index (deriver env2) results2 = Inl e'
             \<or> InvoiceCreator_new None = Inl e')"
proof -
  let ?sr = "send_reply env"
  let ?run = "saveResults env storages results"
  have ij: "i \<noteq> j"
    using assms(6,7) by auto
  have ne: "storages \<noteq> []"
    using assms(4) by auto
  have ne': "storages[i := other] \<noteq> []"
    using ne by simp
  note run = saveResults_run[OF ne assms(1,2,3)]
  note run' = saveResults_run[OF ne' assms(1,2,3)]
  have c1: "tasks ?run = fanOut ?sr storages h"
    by (subst run) simp
  have st: "settled ?run = parallel (fanOut ?sr storages h)"
    by (subst run) simp
  have c1': "tasks (saveResults env (storages[i := other]) results)
               = fanOut ?sr (storages[i := other]) h"
    by (subst run') simp
  have c2: "length (tasks ?run) = length storages"
    unfolding c1 by (simp add: fanOut_def)
  have c3: "settled ?run = parallel (tasks ?run)"
    unfolding c1 st by (rule refl)
  have c4: "tasks (saveResults env (storages[i := other]) results) ! j = tasks ?run ! j"
    unfolding c1 c1' using ij assms(5) by (simp add: fanOut_def)
  obtain es s where r: "saveTask ?sr (storages ! i) h = (Fulfilled, s)"
      "trace s = [Send (Saving (storage_name (storages ! i)) []),
                  SaveTransactions (storage_name (storages ! i)) h] @ es
                 @ [SendError e (Label (''saveTransactions::'' @ storage_name (storages ! i)))]"
    using saveTask_rejects[OF assms(6), of ?sr] by blast
  have ti: "tasks ?run ! i = (Fulfilled, s)"
    unfolding c1 using r(1) assms(4) by (simp add: fanOut_nth)
  have c5: "fst (tasks ?run ! i) = Fulfilled"
    unfolding ti by simp
  have c6: "last (trace (snd (tasks ?run ! i)))
              = SendError e (Label (''saveTransactions::'' @ storage_name (storages ! i)))"
    unfolding ti by (simp add: r(2))
  obtain es' s' d where q: "saveTask ?sr (storages ! j) h = (Fulfilled, s')"
      "trace s' = [Send (Saving (storage_name (storages ! j)) []),
                   SaveTransactions (storage_name (storages ! j)) h] @ es'
                  @ [EditMessage (?sr (Saving (storage_name (storages ! j)) []))
                       (StatsString stats d (steps s'))]"
    using saveTask_resolves[OF assms(7), of ?sr] by blast
  have tj: "tasks ?run ! j = (Fulfilled, s')"
    unfolding c1 using q(1) assms(5) by (simp add: fanOut_nth)
  have c7: "fst (tasks ?run ! j) = Fulfilled"
    unfolding tj by simp
  have "last (trace s') = EditMessage (?sr (Saving (storage_name (storages ! j)) []))
                            (StatsString stats d (steps s'))"
    unfolding q(2) by simp
  then have c8: "\<exists>d. last (trace (snd (tasks ?run ! j)))
              = EditMessage (?sr (Saving (storage_name (storages ! j)) []))
                  (StatsString stats d (steps (snd (tasks ?run ! j))))"
    unfolding tj by auto
  have c9: "settled ?run \<noteq> Rejected e'"
    by (rule saveResults_never_rejects)
  have c10: "(\<forall>st\<in>set storages. snd (saveTransactions st h) \<noteq> Hangs) \<longrightarrow> settled ?run = Fulfilled"
    unfolding st using fanOut_fulfilled by blast
  have c11: "(\<exists>st\<in>set storages. snd (saveTransactions st h) = Hangs) \<longrightarrow> settled ?run = Never"
    unfolding st using fanOut_pending by blast
  have c14: "settled (saveResults_index env2 storages2 results2) = Rejected e'
         \<longrightarrow> resultsToTransactions_index (deriver env2) results2 = Inl e'
             \<or> InvoiceCreator_new None = Inl e'"
    using saveResults_index_rejects by blast
  show ?thesis
    by (intro conjI c1 c2 c3 c4 c5 c6 c7 c8 c9 c10 c11 saveResults_never_rejects
          saveResults_index_tasks c14)
qed

theorem backend_failure_is_isolated_witness:
  "fst (resultsToTransactions (deriver sampleEnv) [okResult [txCommission, txPurchase]])
     = [rowCommission, rowPurchase]
   \<and> [rowCommission, rowPurchase] \<noteq> []
   \<and> invoiceStep sampleEnv [rowCommission, rowPurchase]
       = Inr [rowCommission\<lparr>pdf_link := Some ''https://docs.example/1.pdf'', doc_number := Some ''17''\<rparr>,
              rowPurchase]
   \<and> (0::nat) < length [storageA, storageB] \<and> (1::nat) < length [storageA, storageB]
   \<and> saveTransactions ([storageA, storageB] ! 0)
        [rowCommission\<lparr>pdf_link := Some ''https://docs.example/1.pdf'', doc_number := Some ''17''\<rparr>,
         rowPurchase]
       = ([Progress ''fetch''], Rejects (Error ''connection refused''))
   \<and> saveTransactions ([storageA, storageB] ! 1)
        [rowCommission\<lparr>pdf_link := Some ''https://docs.example/1.pdf'', doc_number := Some ''17''\<rparr>,
         rowPurchase]
       = ([Progress ''fetch'', Progress ''write''],
          Resolves (statsB [rowCommission\<lparr>pdf_link := Some ''https://docs.example/1.pdf'',
                                          doc_number := Some ''17''\<rparr>, rowPurchase]))
   \<and> tasks (saveResults sampleEnv [storageA, storageB] [okResult [txCommission, txPurchase]])
       = fanOut (send_reply sampleEnv) [storageA, storageB]
           [rowCommission\<lparr>pdf_link := Some ''https://docs.example/1.pdf'', doc_number := Some ''17''\<rparr>,
            rowPurchase]
   \<and> fst (tasks (saveResults sampleEnv [storageA, storageB] [okResult [txCommission, txPurchase]]) ! 0)
       = Fulfilled
   \<and> last (trace (snd (tasks (saveResults sampleEnv [storageA, storageB]
                                [okResult [txCommission, txPurchase]]) ! 0)))
       = SendError (Error ''connection refused'')
           (Label (''saveTransactions::'' @ storage_name ([storageA, storageB] ! 0)))
   \<and> fst (tasks (saveResults sampleEnv [storageA, storageB] [okResult [txCommission, txPurchase]]) ! 1)
       = Fulfilled
   \<and> settled (saveResults sampleEnv [storageA, storageB] [okResult [txCommission, txPurchase]])
       = Fulfilled
   \<and> settled (saveResults sampleEnv [storageA, storageB, storageH]
                [okResult [txCommission, txPurchase]]) = Never
   \<and> tasks (saveResults_index sampleEnv [storageA, storageB] [okResult [txCommission, txPurchase]])
       = []"
proof -
  let ?h = "[rowCommission\<lparr>pdf_link := Some ''https://docs.example/1.pdf'', doc_number := Some ''17''\<rparr>,
             rowPurchase]"
  let ?results = "[okResult [txCommission, txPurchase]]"
  have h1: "fst (resultsToTransactions (deriver sampleEnv) ?results) = [rowCommission, rowPurchase]"
    by (simp add: sampleEnv_simps canonical_sample)
  have h2: "[rowCommission, rowPurchase] \<noteq> []" by simp
  note h3 = invoiceStep_up
  have h4: "(0::nat) < length [storageA, storageB]" by simp
  have h5: "(1::nat) < length [storageA, storageB]" by simp
  have h6: "saveTransactions ([storageA, storageB] ! 0) ?h
              = ([Progress ''fetch''], Rejects (Error ''connection refused''))"
    by (simp add: storageA_save)
  have h7: "saveTransactions ([storageA, storageB] ! 1) ?h
              = ([Progress ''fetch'', Progress ''write''], Resolves (statsB ?h))"
    by (simp add: storageB_save)
  note t = backend_failure_is_isolated[OF h1 h2 h3 h4 h5 h6 h7, where other = storageH
             and e' = "Error ''x''" and ?env2.0 = sampleEnv
             and ?storages2.0 = "[storageA, storageB]" and ?results2.0 = ?results]
  note c1 = t[THEN conjunct1]
  note r1 = t[THEN conjunct2, THEN conjunct2, THEN conjunct2, THEN conjunct2]
  note c5 = r1[THEN conjunct1]
  note c6 = r1[THEN conjunct2, THEN conjunct1]
  note c7 = r1[THEN conjunct2, THEN conjunct2, THEN conjunct1]
  note r2 = r1[THEN conjunct2, THEN conjunct2, THEN conjunct2, THEN conjunct2, THEN conjunct2]
  note i10 = r2[THEN conjunct1]
  note c13 = r2[THEN conjunct2, THEN conjunct2, THEN conjunct2, THEN conjunct1]
  have nh: "\<forall>st\<in>set [storageA, storageB]. snd (saveTransactions st ?h) \<noteq> Hangs"
    by (simp add: storageA_save storageB_save)
  have c10: "settled (saveResults sampleEnv [storageA, storageB] ?results) = Fulfilled"
    using i10 nh by (rule mp)
  have g4: "(0::nat) < length [storageA, storageB, storageH]" by simp
  have g5: "(1::nat) < length [storageA, storageB, storageH]" by simp
  have g6: "saveTransactions ([storageA, storageB, storageH] ! 0) ?h
              = ([Progress ''fetch''], Rejects (Error ''connection refused''))"
    by (simp add: storageA_save)
  have g7: "saveTransactions ([storageA, storageB, storageH] ! 1) ?h
              = ([Progress ''fetch'', Progress ''write''], Resolves (statsB ?h))"
    by (simp add: storageB_save)
  note t' = backend_failure_is_isolated[OF h1 h2 h3 g4 g5 g6 g7, where other = storageH
             and e' = "Error ''x''" and ?env2.0 = sampleEnv
             and ?storages2.0 = "[storageA, storageB]" and ?results2.0 = ?results]
  note i11 = t'[THEN conjunct2, THEN conjunct2, THEN conjunct2, THEN conjunct2, THEN conjunct2,
                THEN conjunct2, THEN conjunct2, THEN conjunct2, THEN conjunct2, THEN conjunct2,
                THEN conjunct1]
  have eh: "\<exists>st\<in>set [storageA, storageB, storageH]. snd (saveTransactions st ?h) = Hangs"
    by (simp add: storageH_save)
  have c11: "settled (saveResults sampleEnv [storageA, storageB, storageH] ?results) = Never"
    using i11 eh by (rule mp)
  show ?thesis
    by (intro conjI h1 h2 h3 h4 h5 h6 h7 c1 c5 c6 c7 c10 c11 c13)
qed

text \<open>
  C6, as stated: for every backend whose save rejects after having opened at least one
  progress step, the failure path closes the last open step's timer. It does not: the
  \<open>catch\<close> only logs and calls \<open>sendError\<close>. After a save that opens the step "fetch"
  and rejects, that step is still open.
\<close>

theorem failure_path_leaves_last_step_open:
  "saveTransactions storageA [rowCommission]
     = ([Progress ''fetch''], Rejects (Error ''connection refused''))
   \<and> saveTask (\<lambda>t. Some 1) storageA [rowCommission]
       = (Fulfilled,
          \<lparr>clock = 2,
           steps = [\<lparr>timer_name = ''fetch'', started = 1, ended = None\<rparr>],
           trace = [Send (Saving ''YNABStorage'' []),
                    SaveTransactions ''YNABStorage'' [rowCommission],
                    EditMessage (Some 1)
                      (Saving ''YNABStorage'' [\<lparr>timer_name = ''fetch'', started = 1, ended = None\<rparr>]),
                    SendError (Error ''connection refused'')
                      (Label ''saveTransactions::YNABStorage'')]\<rparr>)
   \<and> ended (last (steps (snd (saveTask (\<lambda>t. Some 1) storageA [rowCommission])))) = None"
proof -
  have a: "saveTransactions storageA [rowCommission]
             = ([Progress ''fetch''], Rejects (Error ''connection refused''))"
    by (rule storageA_save)
  have n: "storage_name storageA = ''YNABStorage''"
    by (simp add: storageA_def)
  have b: "saveTask (\<lambda>t. Some 1) storageA [rowCommission]
       = (Fulfilled,
          \<lparr>clock = 2,
           steps = [\<lparr>timer_name = ''fetch'', started = 1, ended = None\<rparr>],
           trace = [Send (Saving ''YNABStorage'' []),
                    SaveTransactions ''YNABStorage'' [rowCommission],
                    EditMessage (Some 1)
                      (Saving ''YNABStorage'' [\<lparr>timer_name = ''fetch'', started = 1, ended = None\<rparr>]),
                    SendError (Error ''connection refused'')
                      (Label ''saveTransactions::YNABStorage'')]\<rparr>)"
    by (simp add: saveTask_def tryBlock_eq[OF a] n start_state_def Let_def backendAction_simps
          onProgress_def end_last_def Timer_new_def)
  have c: "ended (last (steps (snd (saveTask (\<lambda>t. Some 1) storageA [rowCommission])))) = None"
    by (subst b) simp
  show ?thesis
    by (intro conjI a b c)
qed

text \<open>
  C6, amended. For every backend whose save rejects after having opened at least one
  progress step, the orchestrator's failure path reports the error through the error
  channel tagged with that backend's name (\<open>saveTransactions::\<close> followed by the name),
  and it leaves the last open step's timer open: the timeline is not empty, its last step
  is the one the backend opened last, and that step has no end.
\<close>

theorem failure_path_reports_error:
  assumes "saveTransactions st rows = (acts, Rejects e)" "progressNames acts \<noteq> []"
  shows "(e, Label (''saveTransactions::'' @ storage_name st))
           \<in> set (errorReports (trace (snd (saveTask sr st rows))))
    \<and> steps (snd (saveTask sr st rows)) \<noteq> []
    \<and> timer_name (last (steps (snd (saveTask sr st rows)))) = last (progressNames acts)
    \<and> ended (last (steps (snd (saveTask sr st rows)))) = None"
proof -
  obtain es s where r: "saveTask sr st rows = (Fulfilled, s)"
      "trace s = [Send (Saving (storage_name st) []), SaveTransactions (storage_name st) rows] @ es
                 @ [SendError e (Label (''saveTransactions::'' @ storage_name st))]"
      "map timer_name (steps s) = progressNames acts"
      "progressNames acts \<noteq> [] \<longrightarrow> ended (last (steps s)) = None"
    using saveTask_rejects[OF assms(1), of sr] by blast
  have c1: "(e, Label (''saveTransactions::'' @ storage_name st))
              \<in> set (errorReports (trace (snd (saveTask sr st rows))))"
    unfolding r(1) snd_conv r(2) by (simp add: errorReports_def)
  have ne: "steps s \<noteq> []"
    using r(3) assms(2) by auto
  have c2: "steps (snd (saveTask sr st rows)) \<noteq> []"
    unfolding r(1) snd_conv by (rule ne)
  have "last (map timer_name (steps s)) = timer_name (last (steps s))"
    using ne by (rule last_map)
  then have c3: "timer_name (last (steps (snd (saveTask sr st rows)))) = last (progressNames acts)"
    unfolding r(1) snd_conv r(3) by simp
  have c4: "ended (last (steps (snd (saveTask sr st rows)))) = None"
    unfolding r(1) snd_conv using r(4) assms(2) by (rule mp)
  show ?thesis
    by (intro conjI c1 c2 c3 c4)
qed

theorem failure_path_reports_error_witness:
  "saveTransactions storageG [rowCommission]
     = ([Progress ''Loading header row'',
         Report (Error ''quota exceeded'') ''GoogleSheetsStorage::loadHeaderRow'',
         Progress ''Loading header row failed''],
        Rejects (Error ''Failed to load header row''))
   \<and> progressNames [Progress ''Loading header row'',
         Report (Error ''quota exceeded'') ''GoogleSheetsStorage::loadHeaderRow'',
         Progress ''Loading header row failed''] \<noteq> []
   \<and> (Error ''Failed to load header row'', Label (''saveTransactions::'' @ storage_name storageG))
       \<in> set (errorReports (trace (snd (saveTask (\<lambda>t. Some 1) storageG [rowCommission]))))
   \<and> timer_name (last (steps (snd (saveTask (\<lambda>t. Some 1) storageG [rowCommission]))))
       = last (progressNames [Progress ''Loading header row'',
         Report (Error ''quota exceeded'') ''GoogleSheetsStorage::loadHeaderRow'',
         Progress ''Loading header row failed''])
   \<and> ended (last (steps (snd (saveTask (\<lambda>t. Some 1) storageG [rowCommission])))) = None"
proof -
  note a = storageG_save[of "[rowCommission]"]
  have b: "progressNames [Progress ''Loading header row'',
         Report (Error ''quota exceeded'') ''GoogleSheetsStorage::loadHeaderRow'',
         Progress ''Loading header row failed''] \<noteq> []"
    by (simp add: progressNames_def)
  note t = failure_path_reports_error[OF a b, of "\<lambda>t. Some 1"]
  show ?thesis
    by (intro conjI a b t[THEN conjunct1] t[THEN conjunct2, THEN conjunct2, THEN conjunct1]
          t[THEN conjunct2, THEN conjunct2, THEN conjunct2])
qed

section \<open>Claims about the rows handed to the backends\<close>


lemma saveResults_calls:
  assumes "storages \<noteq> []" "fst (resultsToTransactions (deriver env) results) = allT" "allT \<noteq> []"
    "invoiceStep env allT = Inr h"
  shows "map saveCalls (tasks (saveResults env storages results))
           = map (\<lambda>st. [(storage_name st, h)]) storages"
  by (subst saveResults_run[OF assms]) (simp add: saveCalls_fanOut)



lemma rowCommission_vendor: "isInsuranceVendorTransaction rowCommission"
  by (simp add: isInsuranceVendorTransaction_def rowCommission_def vendorRegex_test_def vendors_def)

lemma linked_differs:
  "rowCommission\<lparr>pdf_link := Some ''https://docs.example/1.pdf'', doc_number := Some ''17''\<rparr>
     \<noteq> rowCommission"
proof
  assume "rowCommission\<lparr>pdf_link := Some ''https://docs.example/1.pdf'', doc_number := Some ''17''\<rparr>
            = rowCommission"
  then have "pdf_link (rowCommission\<lparr>pdf_link := Some ''https://docs.example/1.pdf'',
                                     doc_number := Some ''17''\<rparr>) = pdf_link rowCommission"
    by (rule arg_cong)
  then show False by (simp add: rowCommission_def)
qed




text \<open>
  C5, as stated: no core component, the invoice step included, changes a record of the
  canonical sequence that is then handed to the backends. With the invoice step configured
  and a service that answers with a document, the commission reaches the backend with
  \<open>pdf_link\<close> and \<open>doc_number\<close> set, which the Normalizer had left absent.
\<close>

theorem invoice_step_mutates_canonical_rows:
  "fst (resultsToTransactions (deriver sampleEnv) [okResult [txCommission, txPurchase]])
     = [rowCommission, rowPurchase]
   \<and> map saveCalls (tasks (saveResults sampleEnv [storageB] [okResult [txCommission, txPurchase]]))
       = [[(''LocalJsonStorage'',
            [rowCommission\<lparr>pdf_link := Some ''https://docs.example/1.pdf'', doc_number := Some ''17''\<rparr>,
             rowPurchase])]]
   \<and> pdf_link rowCommission = None \<and> doc_number rowCommission = None
   \<and> rowCommission\<lparr>pdf_link := Some ''https://docs.example/1.pdf'', doc_number := Some ''17''\<rparr>
       \<noteq> rowCommission"
proof -
  have n: "storage_name storageB = ''LocalJsonStorage''"
    by (simp add: storageB_def)
  have a: "fst (resultsToTransactions (deriver sampleEnv) [okResult [txCommission, txPurchase]])
     = [rowCommission, rowPurchase]"
    by (simp add: sampleEnv_simps canonical_sample)
  have st: "[storageB] \<noteq> []" by simp
  have ne: "[rowCommission, rowPurchase] \<noteq> []" by simp
  have b: "map saveCalls (tasks (saveResults sampleEnv [storageB] [okResult [txCommission, txPurchase]]))
       = [[(''LocalJsonStorage'',
            [rowCommission\<lparr>pdf_link := Some ''https://docs.example/1.pdf'', doc_number := Some ''17''\<rparr>,
             rowPurchase])]]"
    unfolding saveResults_calls[OF st a ne invoiceStep_up] by (simp add: n)
  have c: "pdf_link rowCommission = None" "doc_number rowCommission = None"
    by (simp_all add: rowCommission_def)
  show ?thesis
    by (intro conjI a b c linked_differs)
qed

text \<open>
  C5, amended. For every canonical row produced by the Normalizer, all of its fields other
  than \<open>pdf_link\<close> and \<open>doc_number\<close> remain unchanged by the core from the moment of
  creation until the run ends. The invoice-creation step that runs before the fan-out
  assigns \<open>pdf_link\<close> and \<open>doc_number\<close> in place, on the rows that are insurance-vendor
  transactions with a positive amount, each from the answer of the invoice service when
  the answer carries it, and changes nothing else; every row handed to a backend is a
  canonical row as that step left it. In the version of \<open>src/bot/storage/index.ts\<close> no
  row is handed to a backend.
\<close>

theorem invoice_step_changes_only_links:
  assumes "storages \<noteq> []" "fst (resultsToTransactions (deriver env) results) = allT" "allT \<noteq> []"
    "invoiceStep env allT = Inr h"
  shows "map saveCalls (tasks (saveResults env storages results))
           = map (\<lambda>st. [(storage_name st, h)]) storages
    \<and> h = map (\<lambda>r. if invoice_configured env \<and> isInsuranceVendorTransaction r
                     then invoiced (createDoc env) r else r) allT
    \<and> length h = length allT
    \<and> (\<forall>b<length allT. same_but_links (h ! b) (allT ! b))
    \<and> same_but_links (invoiced api r) r
    \<and> (distinct as \<and> (\<forall>a\<in>set as. a < length allT) \<longrightarrow>
         createInvoicesForTransactions api as allT
           = map (\<lambda>b. if b \<in> set as then invoiced api (allT ! b) else allT ! b) [0..<length allT])
    \<and> (\<exists>h'. invoiceStep env2 allT2 = Inr h')
    \<and> tasks (saveResults_index env2 storages2 results2) = []"
proof -
  note f = invoiceStep_frame[OF assms(4)]
  have c2: "h = map (\<lambda>r. if invoice_configured env \<and> isInsuranceVendorTransaction r
                     then invoiced (createDoc env) r else r) allT"
    using assms(4) unfolding invoiceStep_map by simp
  have c6: "distinct as \<and> (\<forall>a\<in>set as. a < length allT) \<longrightarrow>
         createInvoicesForTransactions api as allT
           = map (\<lambda>b. if b \<in> set as then invoiced api (allT ! b) else allT ! b) [0..<length allT]"
    using createInvoices_map[of as allT api] by blast
  show ?thesis
    by (intro conjI saveResults_calls[OF assms] c2 f[THEN conjunct1]
          f[THEN conjunct2, THEN conjunct1] same_but_links_invoiced c6 invoiceStep_total
          saveResults_index_tasks)
qed

theorem invoice_step_changes_only_links_witness:
  "[storageB] \<noteq> []
   \<and> fst (resultsToTransactions (deriver sampleEnv) [okResult [txCommission, txPurchase]])
       = [rowCommission, rowPurchase]
   \<and> [rowCommission, rowPurchase] \<noteq> []
   \<and> invoiceStep sampleEnv [rowCommission, rowPurchase]
       = Inr [rowCommission\<lparr>pdf_link := Some ''https://docs.example/1.pdf'', doc_number := Some ''17''\<rparr>,
              rowPurchase]
   \<and> map saveCalls (tasks (saveResults sampleEnv [storageB] [okResult [txCommission, txPurchase]]))
       = map (\<lambda>st. [(storage_name st,
                       [rowCommission\<lparr>pdf_link := Some ''https://docs.example/1.pdf'',
                                      doc_number := Some ''17''\<rparr>, rowPurchase])]) [storageB]
   \<and> [rowCommission\<lparr>pdf_link := Some ''https://docs.example/1.pdf'', doc_number := Some ''17''\<rparr>,
       rowPurchase]
       = map (\<lambda>r. if invoice_configured sampleEnv \<and> isInsuranceVendorTransaction r
                    then invoiced (createDoc sampleEnv) r else r) [rowCommission, rowPurchase]
   \<and> (0::nat) < length [rowCommission, rowPurchase]
   \<and> same_but_links
        ([rowCommission\<lparr>pdf_link := Some ''https://docs.example/1.pdf'', doc_number := Some ''17''\<rparr>,
          rowPurchase] ! 0)
        ([rowCommission, rowPurchase] ! 0)
   \<and> tasks (saveResults_index sampleEnv [storageB] [okResult [txCommission, txPurchase]]) = []"
proof -
  have h1: "[storageB] \<noteq> []" by simp
  have h2: "fst (resultsToTransactions (deriver sampleEnv) [okResult [txCommission, txPurchase]])
              = [rowCommission, rowPurchase]"
    by (simp add: sampleEnv_simps canonical_sample)
  have h3: "[rowCommission, rowPurchase] \<noteq> []" by simp
  note h4 = invoiceStep_up
  have h5: "(0::nat) < length [rowCommission, rowPurchase]" by simp
  note t = invoice_step_changes_only_links[OF h1 h2 h3 h4, where ?env2.0 = sampleEnv
             and ?storages2.0 = "[storageB]" and ?results2.0 = "[okResult [txCommission, txPurchase]]"
             and api = "createDoc sampleEnv" and r = rowCommission and as = "[0]"
             and ?allT2.0 = "[rowCommission, rowPurchase]"]
  note r3 = t[THEN conjunct2, THEN conjunct2, THEN conjunct2]
  note c4 = r3[THEN conjunct1, THEN spec, THEN mp, OF h5]
  note c8 = r3[THEN conjunct2, THEN conjunct2, THEN conjunct2, THEN conjunct2]
  show ?thesis
    by (intro conjI h1 h2 h3 h4 t[THEN conjunct1] t[THEN conjunct2, THEN conjunct1] h5 c4 c8)
qed






section \<open>Claims about \<open>GoogleSheetsStorage.saveTransactions\<close>\<close>

lemma isNewTxn_keep:
  "fst (isNewTxn ht ex tx stats)
     = (\<not> (ht = ''moneyman'' \<and> uniqueId tx \<in> ex) \<and> hash tx \<notin> ex \<and> status tx \<noteq> Pending)"
  by (simp add: isNewTxn_def)

lemma isNewTxn_existing:
  "existing (snd (isNewTxn ht ex tx stats))
     = existing stats
       + (if (ht = ''moneyman'' \<and> uniqueId tx \<in> ex) \<or> (hash tx \<in> ex \<and> uniqueId tx \<notin> ex)
          then 1 else 0)"
  by (simp add: isNewTxn_def)

lemma filterNewTxns_rows:
  "fst (filterNewTxns ht ex ts stats)
     = filter (\<lambda>tx. \<not> (ht = ''moneyman'' \<and> uniqueId tx \<in> ex) \<and> hash tx \<notin> ex
                     \<and> status tx \<noteq> Pending) ts"
proof (induction ts arbitrary: stats)
  case Nil
  then show ?case by simp
next
  case (Cons tx ts)
  obtain k s1 where k: "isNewTxn ht ex tx stats = (k, s1)"
    by (cases "isNewTxn ht ex tx stats")
  obtain out s2 where o: "filterNewTxns ht ex ts s1 = (out, s2)"
    by (cases "filterNewTxns ht ex ts s1")
  have kk: "k = (\<not> (ht = ''moneyman'' \<and> uniqueId tx \<in> ex) \<and> hash tx \<notin> ex \<and> status tx \<noteq> Pending)"
    using isNewTxn_keep[of ht ex tx stats] k by simp
  have "out = filter (\<lambda>tx. \<not> (ht = ''moneyman'' \<and> uniqueId tx \<in> ex) \<and> hash tx \<notin> ex
                     \<and> status tx \<noteq> Pending) ts"
    using Cons.IH[of s1] o by simp
  then show ?case
    using k o kk by simp
qed

lemma filterNewTxns_existing:
  "existing (snd (filterNewTxns ht ex ts stats))
     = existing stats
       + length (filter (\<lambda>tx. (ht = ''moneyman'' \<and> uniqueId tx \<in> ex)
                               \<or> (hash tx \<in> ex \<and> uniqueId tx \<notin> ex)) ts)"
proof (induction ts arbitrary: stats)
  case Nil
  then show ?case by simp
next
  case (Cons tx ts)
  obtain k s1 where k: "isNewTxn ht ex tx stats = (k, s1)"
    by (cases "isNewTxn ht ex tx stats")
  obtain out s2 where o: "filterNewTxns ht ex ts s1 = (out, s2)"
    by (cases "filterNewTxns ht ex ts s1")
  have e1: "existing s1 = existing stats
       + (if (ht = ''moneyman'' \<and> uniqueId tx \<in> ex) \<or> (hash tx \<in> ex \<and> uniqueId tx \<notin> ex)
          then 1 else 0)"
    using isNewTxn_existing[of ht ex tx stats] k by simp
  have "existing s2 = existing s1
       + length (filter (\<lambda>tx. (ht = ''moneyman'' \<and> uniqueId tx \<in> ex)
                               \<or> (hash tx \<in> ex \<and> uniqueId tx \<notin> ex)) ts)"
    using Cons.IH[of s1] o by simp
  then show ?case
    using k o e1 by simp
qed

lemma sheets_rows:
  "fst (GoogleSheetsStorage_saveTransactions ht ws ex addRows txs)
     = filter (\<lambda>tx. \<not> (ht = ''moneyman'' \<and> uniqueId tx \<in> ex) \<and> hash tx \<notin> ex
                     \<and> status tx \<noteq> Pending) txs"
proof -
  obtain newTxns stats where f:
    "filterNewTxns ht ex txs (createSaveStats ''Google Sheets'' ws txs) = (newTxns, stats)"
    by (cases "filterNewTxns ht ex txs (createSaveStats ''Google Sheets'' ws txs)")
  have n: "newTxns = filter (\<lambda>tx. \<not> (ht = ''moneyman'' \<and> uniqueId tx \<in> ex) \<and> hash tx \<notin> ex
                     \<and> status tx \<noteq> Pending) txs"
    using filterNewTxns_rows[of ht ex txs "createSaveStats ''Google Sheets'' ws txs"] f by simp
  have "fst (GoogleSheetsStorage_saveTransactions ht ws ex addRows txs) = newTxns"
    by (cases "addRows newTxns")
       (auto simp: GoogleSheetsStorage_saveTransactions_def f Let_def split: sum.splits)
  then show ?thesis using n by simp
qed

lemma sheets_existing:
  "existing (snd (GoogleSheetsStorage_saveTransactions ht ws ex addRows txs))
     = length (filter (\<lambda>tx. (ht = ''moneyman'' \<and> uniqueId tx \<in> ex)
                               \<or> (hash tx \<in> ex \<and> uniqueId tx \<notin> ex)) txs)"
proof -
  obtain newTxns stats where f:
    "filterNewTxns ht ex txs (createSaveStats ''Google Sheets'' ws txs) = (newTxns, stats)"
    by (cases "filterNewTxns ht ex txs (createSaveStats ''Google Sheets'' ws txs)")
  have n: "existing stats = length (filter (\<lambda>tx. (ht = ''moneyman'' \<and> uniqueId tx \<in> ex)
                               \<or> (hash tx \<in> ex \<and> uniqueId tx \<notin> ex)) txs)"
    using filterNewTxns_existing[of ht ex txs "createSaveStats ''Google Sheets'' ws txs"] f
    by (simp add: createSaveStats_def)
  have "existing (snd (GoogleSheetsStorage_saveTransactions ht ws ex addRows txs)) = existing stats"
    by (cases "addRows newTxns")
       (auto simp: GoogleSheetsStorage_saveTransactions_def f Let_def split: sum.splits)
  then show ?thesis using n by simp
qed

text \<open>
  C10, as stated: every row actually added had neither key present in the sheet when it
  was loaded. The test of \<open>uniqueId\<close> is made under the "moneyman" hash type only: with
  the default hash type, a completed transaction whose \<open>uniqueId\<close> is in the sheet and
  whose \<open>hash\<close> is not is added.
\<close>

theorem sheets_adds_row_with_known_uniqueId:
  "fst (GoogleSheetsStorage_saveTransactions [] ''_moneyman'' {uniqueId rowCommission}
          (\<lambda>rows. AddFulfilled) [rowCommission]) = [rowCommission]
   \<and> uniqueId rowCommission \<in> {uniqueId rowCommission}
   \<and> status rowCommission \<noteq> Pending"
  by (simp add: sheets_rows) (simp add: rowCommission_def)

text \<open>
  C10, amended. For every call of \<open>GoogleSheetsStorage.saveTransactions\<close>, the rows added
  are, in order, the given transactions whose \<open>hash\<close> is not in the existing-hash set,
  whose \<open>uniqueId\<close> is not in it either when the hash type is "moneyman", and whose status
  is not Pending; so a transaction whose \<open>uniqueId\<close> (under "moneyman") or whose \<open>hash\<close>
  is in the set is never added, nor is a Pending one. Each transaction, added or not,
  raises \<open>stats.existing\<close> by one when its \<open>uniqueId\<close> is in the set under "moneyman" or
  its \<open>hash\<close> is in the set while its \<open>uniqueId\<close> is not, and leaves it as it is
  otherwise; the final count is the number of such transactions, whether or not any row
  is added.
\<close>

theorem sheets_added_rows_are_new:
  "fst (GoogleSheetsStorage_saveTransactions ht ws ex addRows txs)
     = filter (\<lambda>tx. \<not> (ht = ''moneyman'' \<and> uniqueId tx \<in> ex) \<and> hash tx \<notin> ex
                     \<and> status tx \<noteq> Pending) txs
   \<and> (\<forall>tx\<in>set (fst (GoogleSheetsStorage_saveTransactions ht ws ex addRows txs)).
         tx \<in> set txs \<and> hash tx \<notin> ex \<and> (ht = ''moneyman'' \<longrightarrow> uniqueId tx \<notin> ex)
         \<and> status tx \<noteq> Pending)
   \<and> existing (snd (GoogleSheetsStorage_saveTransactions ht ws ex addRows txs))
       = length (filter (\<lambda>tx. (ht = ''moneyman'' \<and> uniqueId tx \<in> ex)
                               \<or> (hash tx \<in> ex \<and> uniqueId tx \<notin> ex)) txs)
   \<and> existing (snd (GoogleSheetsStorage_saveTransactions ht ws ex addRows txs)) \<le> length txs
   \<and> existing (snd (isNewTxn ht ex t stats))
       = existing stats
         + (if (ht = ''moneyman'' \<and> uniqueId t \<in> ex) \<or> (hash t \<in> ex \<and> uniqueId t \<notin> ex)
            then 1 else 0)
   \<and> fst (isNewTxn ht ex t stats)
       = (\<not> (ht = ''moneyman'' \<and> uniqueId t \<in> ex) \<and> hash t \<notin> ex \<and> status t \<noteq> Pending)"
proof -
  have m: "\<forall>tx\<in>set (fst (GoogleSheetsStorage_saveTransactions ht ws ex addRows txs)).
         tx \<in> set txs \<and> hash tx \<notin> ex \<and> (ht = ''moneyman'' \<longrightarrow> uniqueId tx \<notin> ex)
         \<and> status tx \<noteq> Pending"
    unfolding sheets_rows by auto
  have c4: "existing (snd (GoogleSheetsStorage_saveTransactions ht ws ex addRows txs)) \<le> length txs"
    unfolding sheets_existing by (rule length_filter_le)
  show ?thesis
    by (intro conjI sheets_rows m sheets_existing c4 isNewTxn_existing isNewTxn_keep)
qed

theorem sheets_added_rows_are_new_witness:
  "fst (GoogleSheetsStorage_saveTransactions ''moneyman'' ''_moneyman'' {hash rowPurchase}
          (\<lambda>rows. AddFulfilled) [rowCommission, rowPurchase]) = [rowCommission]
   \<and> rowCommission \<in> set (fst (GoogleSheetsStorage_saveTransactions ''moneyman'' ''_moneyman''
                                {hash rowPurchase} (\<lambda>rows. AddFulfilled) [rowCommission, rowPurchase]))
   \<and> hash rowCommission \<notin> {hash rowPurchase}
   \<and> uniqueId rowCommission \<notin> {hash rowPurchase}
   \<and> status rowCommission \<noteq> Pending
   \<and> existing (snd (GoogleSheetsStorage_saveTransactions ''moneyman'' ''_moneyman''
                       {hash rowPurchase} (\<lambda>rows. AddFulfilled) [rowCommission, rowPurchase])) = 1
   \<and> fst (GoogleSheetsStorage_saveTransactions ''moneyman'' ''_moneyman'' {hash rowPurchase}
          (\<lambda>rows. AddFulfilled) [rowPurchase]) = []
   \<and> existing (snd (GoogleSheetsStorage_saveTransactions ''moneyman'' ''_moneyman''
                       {hash rowPurchase} (\<lambda>rows. AddFulfilled) [rowPurchase])) = 1"
proof -
  note t = sheets_added_rows_are_new[of "''moneyman''" "''_moneyman''" "{hash rowPurchase}"
             "\<lambda>rows. AddFulfilled" "[rowCommission, rowPurchase]" rowCommission
             "createSaveStats ''Google Sheets'' ''_moneyman'' []"]
  note t' = sheets_added_rows_are_new[of "''moneyman''" "''_moneyman''" "{hash rowPurchase}"
             "\<lambda>rows. AddFulfilled" "[rowPurchase]" rowPurchase
             "createSaveStats ''Google Sheets'' ''_moneyman'' []"]
  have r: "fst (GoogleSheetsStorage_saveTransactions ''moneyman'' ''_moneyman'' {hash rowPurchase}
          (\<lambda>rows. AddFulfilled) [rowCommission, rowPurchase]) = [rowCommission]"
    unfolding t[THEN conjunct1] by (simp add: rowCommission_def rowPurchase_def)
  have h: "rowCommission \<in> set (fst (GoogleSheetsStorage_saveTransactions ''moneyman'' ''_moneyman''
                                {hash rowPurchase} (\<lambda>rows. AddFulfilled) [rowCommission, rowPurchase]))"
    unfolding r by simp
  note b = t[THEN conjunct2, THEN conjunct1, THEN bspec, OF h]
  have m: "''moneyman'' = ''moneyman''" by simp
  note c2 = b[THEN conjunct2, THEN conjunct1]
  note c3 = b[THEN conjunct2, THEN conjunct2, THEN conjunct1, THEN mp, OF m]
  note c4 = b[THEN conjunct2, THEN conjunct2, THEN conjunct2]
  have c6: "existing (snd (GoogleSheetsStorage_saveTransactions ''moneyman'' ''_moneyman''
                       {hash rowPurchase} (\<lambda>rows. AddFulfilled) [rowCommission, rowPurchase])) = 1"
    unfolding t[THEN conjunct2, THEN conjunct2, THEN conjunct1]
    by (simp add: rowCommission_def rowPurchase_def)
  have r': "fst (GoogleSheetsStorage_saveTransactions ''moneyman'' ''_moneyman'' {hash rowPurchase}
          (\<lambda>rows. AddFulfilled) [rowPurchase]) = []"
    unfolding t'[THEN conjunct1] by (simp add: rowPurchase_def)
  have c6': "existing (snd (GoogleSheetsStorage_saveTransactions ''moneyman'' ''_moneyman''
                       {hash rowPurchase} (\<lambda>rows. AddFulfilled) [rowPurchase])) = 1"
    unfolding t'[THEN conjunct2, THEN conjunct2, THEN conjunct1]
    by (simp add: rowPurchase_def)
  show ?thesis
    by (intro conjI r h c2 c3 c4 c6 r' c6')
qed
end
